theory Spec2Isabelle
  imports Main "HOL-Library.Word"
begin

section \<open>Go values used by agent\_config.go\<close>

text \<open>
  Go's \<open>int64\<close> and \<open>time.Duration\<close> are 64-bit two's complement integers whose
  arithmetic wraps; \<open>int\<close> is taken at its 64-bit width (amd64, arm64), where the
  conversion \<open>int(val)\<close> of an \<open>int64\<close> is the identity.
\<close>

type_synonym int64 = "64 word"
type_synonym go_int = "64 word"
type_synonym Duration = "64 word"

definition Millisecond :: Duration where
  "Millisecond = 1000000"

text \<open>
  A Go \<open>error\<close> value: one made by \<open>errors.New\<close> or \<open>fmt.Errorf\<close> (or handed back
  by a library), identified by its message, or the package's \<open>errInvalidCertificate\<close>.
\<close>

datatype error = ErrorString string | errInvalidCertificate

datatype DcpAgentPriority = DcpAgentPriorityLow | DcpAgentPriorityMed | DcpAgentPriorityHigh

text \<open>
  \<open>fmt.Sprintf("%d", n)\<close>: the decimal digits of \<open>n\<close>, with a minus sign when negative.
\<close>

fun formatNat :: "nat \<Rightarrow> string" where
  "formatNat n =
     (if n < 10 then [''0123456789'' ! n]
      else formatNat (n div 10) @ [''0123456789'' ! (n mod 10)])"

declare formatNat.simps [simp del]

definition formatInt :: "int \<Rightarrow> string" where
  "formatInt i = (if i < 0 then ''-'' @ formatNat (nat (- i)) else formatNat (nat i))"

section \<open>The resolved connection string (package gocbconnstr)\<close>

record Address =
  Host :: string
  Port :: go_int

text \<open>
  The fields of \<open>gocbconnstr.ResolvedConnSpec\<close> that \<open>FromConnStr\<close> reads.
  \<open>Options\<close> is a Go \<open>map[string][]string\<close>: each option name with the values of
  its occurrences, in the order of the connection string.
\<close>

record ResolvedConnSpec =
  UseSsl :: bool
  MemdHosts :: "Address list"
  HttpHosts :: "Address list"
  Bucket :: string
  Options :: "string \<rightharpoonup> string list"

text \<open>Indexing a Go map: a missing key gives the zero value, the nil slice.\<close>

definition mapIndex :: "(string \<rightharpoonup> string list) \<Rightarrow> string \<Rightarrow> string list" where
  "mapIndex m name = (case m name of None \<Rightarrow> [] | Some optValue \<Rightarrow> optValue)"

section \<open>AgentConfig\<close>

text \<open>
  The struct of agent\_config.go, field by field. The types declared outside the
  file are parameters: \<open>'strs\<close> is \<open>[]string\<close> (a list of strings where the
  slices are built fresh, a slice header into a store of arrays where aliasing
  matters), \<open>'auth\<close> is \<open>AuthProvider\<close>, \<open>'pool\<close> is \<open>x509.CertPool\<close> (the field is a
  pointer, \<open>None\<close> when nil), \<open>'f64\<close> is \<open>float64\<close>, \<open>'tracer\<close> is \<open>RequestTracer\<close>,
  \<open>'retry\<close> is \<open>RetryStrategy\<close> and \<open>'cb\<close> is \<open>CircuitBreakerConfig\<close>.
\<close>

record ('strs, 'auth, 'pool, 'f64, 'tracer, 'retry, 'cb) AgentConfig =
  UserAgent :: string
  MemdAddrs :: 'strs
  HTTPAddrs :: 'strs
  UseTLS :: bool
  BucketName :: string
  NetworkType :: string
  Auth :: 'auth
  TLSRootCAs :: "'pool option"
  TLSSkipVerify :: bool
  UseMutationTokens :: bool
  UseCompression :: bool
  UseDurations :: bool
  DisableDecompression :: bool
  UseCollections :: bool
  CompressionMinSize :: go_int
  CompressionMinRatio :: 'f64
  HTTPRedialPeriod :: Duration
  HTTPRetryDelay :: Duration
  CccpMaxWait :: Duration
  CccpPollPeriod :: Duration
  ConnectTimeout :: Duration
  KVConnectTimeout :: Duration
  KvPoolSize :: go_int
  MaxQueueSize :: go_int
  HTTPMaxIdleConns :: go_int
  HTTPMaxIdleConnsPerHost :: go_int
  HTTPIdleConnectionTimeout :: Duration
  Tracer :: 'tracer
  NoRootTraceSpans :: bool
  DefaultRetryStrategy :: 'retry
  CircuitBreakerConfig :: 'cb
  UseZombieLogger :: bool
  ZombieLoggerInterval :: Duration
  ZombieLoggerSampleSize :: go_int
  DcpAgentPriority :: DcpAgentPriority
  UseDCPExpiry :: bool
  UseDCPStreamID :: bool

section \<open>The library calls of FromConnStr\<close>

text \<open>
  \<open>FromConnStr\<close> calls into gocbconnstr, io/ioutil, crypto/x509 and strconv. Their
  code is not part of this package, so they are parameters of the model:
  \<open>strconv_ParseInt s\<close> stands for \<open>strconv.ParseInt(s, 10, 64)\<close> and
  \<open>strconv_ParseFloat s\<close> for \<open>strconv.ParseFloat(s, 64)\<close>;
  \<open>AppendCertsFromPEM roots pem\<close> gives the pool after the call and the
  reported \<open>ok\<close>.
\<close>

record ('base, 'pool, 'f64) library =
  gocbconnstr_Parse :: "string \<Rightarrow> error + 'base"
  gocbconnstr_Resolve :: "'base \<Rightarrow> error + ResolvedConnSpec"
  ioutil_ReadFile :: "string \<Rightarrow> error + string"
  x509_NewCertPool :: 'pool
  AppendCertsFromPEM :: "'pool \<Rightarrow> string \<Rightarrow> 'pool \<times> bool"
  strconv_ParseInt :: "string \<Rightarrow> error + int64"
  strconv_ParseBool :: "string \<Rightarrow> error + bool"
  strconv_ParseFloat :: "string \<Rightarrow> error + 'f64"

section \<open>FromConnStr\<close>

text \<open>
  The closure \<open>fetchOption\<close>: the value of the last occurrence of an option and
  \<open>true\<close>, or the empty string and \<open>false\<close> when the option has no value.
\<close>

definition fetchOption :: "ResolvedConnSpec \<Rightarrow> string \<Rightarrow> string \<times> bool" where
  "fetchOption spec name =
     (let optValue = mapIndex (Options spec) name
      in if length optValue = 0 then ('''', False)
         else (optValue ! (length optValue - 1), True))"

text \<open>
  \<open>fmt.Sprintf("%s:%d", specHost.Host, specHost.Port)\<close>, and the two loops that
  append one such string per resolved host to a nil slice.
\<close>

definition hostPort :: "Address \<Rightarrow> string" where
  "hostPort specHost = Host specHost @ '':'' @ formatInt (sint (Port specHost))"

definition appendHosts :: "Address list \<Rightarrow> string list" where
  "appendHosts hosts = foldl (\<lambda>acc specHost. acc @ [hostPort specHost]) [] hosts"

text \<open>
  \<open>FromConnStr\<close> writes through its receiver and returns an \<open>error\<close>. Each part
  of its body is a step from the config to the returned error (\<open>None\<close> is
  \<open>nil\<close>: the body goes on) and the config as the step leaves it; what a step
  wrote before returning an error stays written.
\<close>

type_synonym 'c step = "'c \<Rightarrow> error option \<times> 'c"

fun runSteps :: "'c step list \<Rightarrow> 'c step" where
  "runSteps [] config = (None, config)"
| "runSteps (s # ss) config =
     (case s config of
        (Some err, config') \<Rightarrow> (Some err, config')
      | (None, config') \<Rightarrow> runSteps ss config')"

text \<open>
  The \<open>bootstrap_on\<close> switch with the two assignments that follow it
  (lines 135 to 166).
\<close>

definition bootstrapStep ::
  "ResolvedConnSpec \<Rightarrow> (string list, 'auth, 'pool, 'f64, 'tracer, 'retry, 'cb) AgentConfig step" where
  "bootstrapStep spec config =
     (let httpHosts = appendHosts (HttpHosts spec);
          memdHosts = appendHosts (MemdHosts spec);
          val = fst (fetchOption spec ''bootstrap_on'')
      in if val = ''http'' then
           (if length httpHosts = 0
            then (Some (ErrorString ''bootstrap_on=http but no HTTP hosts in connection string''), config)
            else (None, config\<lparr>MemdAddrs := [], HTTPAddrs := httpHosts\<rparr>))
         else if val = ''cccp'' then
           (if length memdHosts = 0
            then (Some (ErrorString ''bootstrap_on=cccp but no CCCP/Memcached hosts in connection string''), config)
            else (None, config\<lparr>MemdAddrs := memdHosts, HTTPAddrs := []\<rparr>))
         else if val = ''both'' \<or> val = '''' then
           (None, config\<lparr>MemdAddrs := memdHosts, HTTPAddrs := httpHosts\<rparr>)
         else (Some (ErrorString ''bootstrap_on={http,cccp,both}''), config))"

text \<open>
  The loop over \<open>cacertpaths\<close> (lines 176 to 186): every path is read and
  appended to the pool, in order; the first file that cannot be read or holds
  no certificate ends the call.
\<close>

fun loadCerts :: "('base, 'pool, 'f64) library \<Rightarrow> 'pool \<Rightarrow> string list \<Rightarrow> error + 'pool" where
  "loadCerts lib roots [] = Inr roots"
| "loadCerts lib roots (path # paths) =
     (case ioutil_ReadFile lib path of
        Inl err \<Rightarrow> Inl err
      | Inr cacert \<Rightarrow>
          (case AppendCertsFromPEM lib roots cacert of
             (roots', ok) \<Rightarrow>
               if \<not> ok then Inl errInvalidCertificate else loadCerts lib roots' paths))"

definition tlsStep ::
  "('base, 'pool, 'f64) library \<Rightarrow> ResolvedConnSpec \<Rightarrow>
   ('strs, 'auth, 'pool, 'f64, 'tracer, 'retry, 'cb) AgentConfig step" where
  "tlsStep lib spec config =
     (if UseSsl spec then
        (let cacertpaths = mapIndex (Options spec) ''ca_cert_path''
         in if length cacertpaths > 0 then
              (case loadCerts lib (x509_NewCertPool lib) cacertpaths of
                 Inl err \<Rightarrow> (Some err, config)
               | Inr roots \<Rightarrow> (None, config\<lparr>TLSRootCAs := Some roots, UseTLS := True\<rparr>))
            else (None, config\<lparr>TLSSkipVerify := True, UseTLS := True\<rparr>))
      else (None, config))"

definition bucketStep ::
  "ResolvedConnSpec \<Rightarrow> ('strs, 'auth, 'pool, 'f64, 'tracer, 'retry, 'cb) AgentConfig step" where
  "bucketStep spec config =
     (if Bucket spec \<noteq> '''' then (None, config\<lparr>BucketName := Bucket spec\<rparr>)
      else (None, config))"

definition networkStep ::
  "ResolvedConnSpec \<Rightarrow> ('strs, 'auth, 'pool, 'f64, 'tracer, 'retry, 'cb) AgentConfig step" where
  "networkStep spec config =
     (case fetchOption spec ''network'' of
        (valStr, ok) \<Rightarrow>
          if ok then
            (let valStr = (if valStr = ''default'' then '''' else valStr)
             in (None, config\<lparr>NetworkType := valStr\<rparr>))
          else (None, config))"

text \<open>
  The shape shared by the numeric and boolean options: fetch the option; when it
  is present parse its value, return the option's own error if the parse fails,
  and assign the parsed value otherwise.
\<close>

definition parsedOption ::
  "ResolvedConnSpec \<Rightarrow> string \<Rightarrow> (string \<Rightarrow> error + 'v) \<Rightarrow> string \<Rightarrow>
   ('v \<Rightarrow> 'c \<Rightarrow> 'c) \<Rightarrow> 'c step" where
  "parsedOption spec name parse message assign config =
     (case fetchOption spec name of
        (valStr, ok) \<Rightarrow>
          if ok then
            (case parse valStr of
               Inl err \<Rightarrow> (Some (ErrorString message), config)
             | Inr val \<Rightarrow> (None, assign val config))
          else (None, config))"

definition dcpPriorityStep ::
  "ResolvedConnSpec \<Rightarrow> ('strs, 'auth, 'pool, 'f64, 'tracer, 'retry, 'cb) AgentConfig step" where
  "dcpPriorityStep spec config =
     (case fetchOption spec ''dcp_priority'' of
        (valStr, ok) \<Rightarrow>
          if ok then
            (if valStr = '''' then (None, config\<lparr>DcpAgentPriority := DcpAgentPriorityLow\<rparr>)
             else if valStr = ''low'' then (None, config\<lparr>DcpAgentPriority := DcpAgentPriorityLow\<rparr>)
             else if valStr = ''medium'' then (None, config\<lparr>DcpAgentPriority := DcpAgentPriorityMed\<rparr>)
             else if valStr = ''high'' then (None, config\<lparr>DcpAgentPriority := DcpAgentPriorityHigh\<rparr>)
             else (Some (ErrorString ''dcp_priority must be one of low, medium or high''), config))
          else (None, config))"

text \<open>
  The option blocks of lines 208 to 381, in the order of the source, each with
  its option name, its parser, its error message and the field it assigns.
\<close>

definition optionSteps ::
  "('base, 'pool, 'f64) library \<Rightarrow> ResolvedConnSpec \<Rightarrow>
   ('strs, 'auth, 'pool, 'f64, 'tracer, 'retry, 'cb) AgentConfig step list" where
  "optionSteps lib spec =
    [parsedOption spec ''kv_connect_timeout'' (strconv_ParseInt lib)
       ''kv_connect_timeout option must be a number''
       (\<lambda>val config. config\<lparr>KVConnectTimeout := val * Millisecond\<rparr>),
     parsedOption spec ''config_poll_timeout'' (strconv_ParseInt lib)
       ''config poll timeout option must be a number''
       (\<lambda>val config. config\<lparr>CccpMaxWait := val * Millisecond\<rparr>),
     parsedOption spec ''config_poll_interval'' (strconv_ParseInt lib)
       ''config pool interval option must be a number''
       (\<lambda>val config. config\<lparr>CccpPollPeriod := val * Millisecond\<rparr>),
     parsedOption spec ''enable_mutation_tokens'' (strconv_ParseBool lib)
       ''enable_mutation_tokens option must be a boolean''
       (\<lambda>val config. config\<lparr>UseMutationTokens := val\<rparr>),
     parsedOption spec ''compression'' (strconv_ParseBool lib)
       ''compression option must be a boolean''
       (\<lambda>val config. config\<lparr>UseCompression := val\<rparr>),
     parsedOption spec ''compression_min_size'' (strconv_ParseInt lib)
       ''compression_min_size option must be an int''
       (\<lambda>val config. config\<lparr>CompressionMinSize := val\<rparr>),
     parsedOption spec ''compression_min_ratio'' (strconv_ParseFloat lib)
       ''compression_min_size option must be an int''
       (\<lambda>val config. config\<lparr>CompressionMinRatio := val\<rparr>),
     parsedOption spec ''enable_server_durations'' (strconv_ParseBool lib)
       ''server_duration option must be a boolean''
       (\<lambda>val config. config\<lparr>UseDurations := val\<rparr>),
     parsedOption spec ''max_idle_http_connections'' (strconv_ParseInt lib)
       ''http max idle connections option must be a number''
       (\<lambda>val config. config\<lparr>HTTPMaxIdleConns := val\<rparr>),
     parsedOption spec ''max_perhost_idle_http_connections'' (strconv_ParseInt lib)
       ''max_perhost_idle_http_connections option must be a number''
       (\<lambda>val config. config\<lparr>HTTPMaxIdleConnsPerHost := val\<rparr>),
     parsedOption spec ''idle_http_connection_timeout'' (strconv_ParseInt lib)
       ''idle_http_connection_timeout option must be a number''
       (\<lambda>val config. config\<lparr>HTTPIdleConnectionTimeout := val * Millisecond\<rparr>),
     parsedOption spec ''orphaned_response_logging'' (strconv_ParseBool lib)
       ''orphaned_response_logging option must be a boolean''
       (\<lambda>val config. config\<lparr>UseZombieLogger := val\<rparr>),
     parsedOption spec ''orphaned_response_logging_interval'' (strconv_ParseInt lib)
       ''orphaned_response_logging_interval option must be a number''
       (\<lambda>val config. config\<lparr>ZombieLoggerInterval := val * Millisecond\<rparr>),
     parsedOption spec ''orphaned_response_logging_sample_size'' (strconv_ParseInt lib)
       ''orphaned_response_logging_sample_size option must be a number''
       (\<lambda>val config. config\<lparr>ZombieLoggerSampleSize := val\<rparr>),
     dcpPriorityStep spec,
     parsedOption spec ''enable_dcp_expiry'' (strconv_ParseBool lib)
       ''enable_dcp_expiry option must be a boolean''
       (\<lambda>val config. config\<lparr>UseDCPExpiry := val\<rparr>),
     parsedOption spec ''http_redial_period'' (strconv_ParseInt lib)
       ''http redial period option must be a number''
       (\<lambda>val config. config\<lparr>HTTPRedialPeriod := val * Millisecond\<rparr>),
     parsedOption spec ''http_retry_delay'' (strconv_ParseInt lib)
       ''http retry delay option must be a number''
       (\<lambda>val config. config\<lparr>HTTPRetryDelay := val * Millisecond\<rparr>),
     parsedOption spec ''kv_pool_size'' (strconv_ParseInt lib)
       ''kv pool size option must be a number''
       (\<lambda>val config. config\<lparr>KvPoolSize := val\<rparr>),
     parsedOption spec ''max_queue_size'' (strconv_ParseInt lib)
       ''max queue size option must be a number''
       (\<lambda>val config. config\<lparr>MaxQueueSize := val\<rparr>)]"

text \<open>The body of \<open>FromConnStr\<close> from line 127 on, for a resolved connection string.\<close>

definition fromResolved ::
  "('base, 'pool, 'f64) library \<Rightarrow> ResolvedConnSpec \<Rightarrow>
   (string list, 'auth, 'pool, 'f64, 'tracer, 'retry, 'cb) AgentConfig step" where
  "fromResolved lib spec =
     runSteps (bootstrapStep spec # tlsStep lib spec # bucketStep spec # networkStep spec
               # optionSteps lib spec)"

definition FromConnStr ::
  "('base, 'pool, 'f64) library \<Rightarrow> string \<Rightarrow>
   (string list, 'auth, 'pool, 'f64, 'tracer, 'retry, 'cb) AgentConfig step" where
  "FromConnStr lib connStr config =
     (case gocbconnstr_Parse lib connStr of
        Inl err \<Rightarrow> (Some err, config)
      | Inr baseSpec \<Rightarrow>
          (case gocbconnstr_Resolve lib baseSpec of
             Inl err \<Rightarrow> (Some err, config)
           | Inr spec \<Rightarrow> fromResolved lib spec config))"

text \<open>
  What "the referenced PEM files are loaded" means: the pool after
  \<open>AppendCertsFromPEM\<close> has been called with the content of each file, in the
  order of the paths.
\<close>

definition certsAppended :: "('base, 'pool, 'f64) library \<Rightarrow> 'pool \<Rightarrow> string list \<Rightarrow> 'pool" where
  "certsAppended lib roots paths =
     foldl (\<lambda>roots path.
              case ioutil_ReadFile lib path of
                Inr pem \<Rightarrow> fst (AppendCertsFromPEM lib roots pem)
              | Inl err \<Rightarrow> roots) roots paths"


text \<open>
  The last occurrence of an option, given the values of its occurrences in
  order: none when the list is empty.
\<close>

definition lastOccurrence :: "string list \<Rightarrow> string option" where
  "lastOccurrence optValue = (if optValue = [] then None else Some (last optValue))"


section \<open>redacted\<close>

text \<open>
  \<open>redacted\<close> copies the struct behind its receiver, and a copied struct shares
  the backing arrays of its slices with the original. So here a \<open>[]string\<close> is a
  slice header (the address of its backing array, \<open>None\<close> for the nil slice, and
  offset, length and capacity within it), and the memory is explicit: the
  \<open>AgentConfig\<close> structs by address (an address holding no struct stands for the
  nil pointer) and the string arrays by address (the position in the list; a new
  array gets the next one).
\<close>

record slice =
  sliceArray :: "nat option"
  sliceOff :: nat
  sliceLen :: nat
  sliceCap :: nat

record ('auth, 'pool, 'f64, 'tracer, 'retry, 'cb) heap =
  structs :: "nat \<rightharpoonup> (slice, 'auth, 'pool, 'f64, 'tracer, 'retry, 'cb) AgentConfig"
  arrays :: "string list list"

datatype panic = NilDereference

definition nilSlice :: slice where
  "nilSlice = \<lparr>sliceArray = None, sliceOff = 0, sliceLen = 0, sliceCap = 0\<rparr>"

text \<open>
  A slice of a running Go program lies within an allocated array. The elements
  of a slice, and reading and writing \<open>s[i]\<close> (only used with \<open>i\<close> below the
  length, where Go does not panic).
\<close>

definition validSlice :: "string list list \<Rightarrow> slice \<Rightarrow> bool" where
  "validSlice mem s =
     (case sliceArray s of
        None \<Rightarrow> sliceLen s = 0
      | Some a \<Rightarrow> a < length mem \<and> sliceLen s \<le> sliceCap s
                 \<and> sliceOff s + sliceCap s \<le> length (mem ! a))"

definition sliceElems :: "string list list \<Rightarrow> slice \<Rightarrow> string list" where
  "sliceElems mem s =
     (case sliceArray s of
        None \<Rightarrow> []
      | Some a \<Rightarrow> take (sliceLen s) (drop (sliceOff s) (mem ! a)))"

definition sliceGet :: "string list list \<Rightarrow> slice \<Rightarrow> nat \<Rightarrow> string" where
  "sliceGet mem s i = (case sliceArray s of None \<Rightarrow> [] | Some a \<Rightarrow> (mem ! a) ! (sliceOff s + i))"

definition sliceSet :: "string list list \<Rightarrow> slice \<Rightarrow> nat \<Rightarrow> string \<Rightarrow> string list list" where
  "sliceSet mem s i v =
     (case sliceArray s of None \<Rightarrow> mem | Some a \<Rightarrow> mem[a := (mem ! a)[sliceOff s + i := v]])"

text \<open>
  \<open>append([]string(nil), s...)\<close>: appending nothing to the nil slice gives the
  nil slice; otherwise a new array is allocated and the elements of \<open>s\<close> are
  copied into it. (The spare capacity the runtime may add is left out: nothing
  here reads it.)
\<close>

definition appendToNil :: "string list list \<Rightarrow> slice \<Rightarrow> slice \<times> string list list" where
  "appendToNil mem s =
     (if sliceLen s = 0 then (nilSlice, mem)
      else (\<lparr>sliceArray = Some (length mem), sliceOff = 0, sliceLen = sliceLen s,
             sliceCap = sliceLen s\<rparr>,
            mem @ [sliceElems mem s]))"

text \<open>
  \<open>for i, addr := range s { s[i] = redact(addr) }\<close>, over the indices of \<open>s\<close>.
\<close>

fun redactLoop :: "(string \<Rightarrow> string) \<Rightarrow> slice \<Rightarrow> nat list \<Rightarrow> string list list \<Rightarrow> string list list" where
  "redactLoop redact s [] mem = mem"
| "redactLoop redact s (i # is) mem =
     (let addr = sliceGet mem s i
      in redactLoop redact s is (sliceSet mem s i (redact addr)))"

text \<open>
  \<open>redacted\<close>, with the package functions \<open>isLogRedactionLevelFull\<close>,
  \<open>redactSystemData\<close> and \<open>redactMetaData\<close> (not in this file) as parameters. It
  returns the new struct and the memory as the call leaves it.
\<close>

definition redacted ::
  "bool \<Rightarrow> (string \<Rightarrow> string) \<Rightarrow> (string \<Rightarrow> string) \<Rightarrow>
   ('auth, 'pool, 'f64, 'tracer, 'retry, 'cb) heap \<Rightarrow> nat \<Rightarrow>
   panic + ((slice, 'auth, 'pool, 'f64, 'tracer, 'retry, 'cb) AgentConfig
            \<times> ('auth, 'pool, 'f64, 'tracer, 'retry, 'cb) heap)" where
  "redacted isLogRedactionLevelFull redactSystemData redactMetaData h config =
     (case structs h config of
        None \<Rightarrow> Inl NilDereference
      | Some c \<Rightarrow>
          (let newConfig = c in
           if isLogRedactionLevelFull then
             (let (httpAddrs, mem1) = appendToNil (arrays h) (HTTPAddrs newConfig);
                  newConfig = newConfig\<lparr>HTTPAddrs := httpAddrs\<rparr>;
                  mem2 = redactLoop redactSystemData (HTTPAddrs newConfig)
                           [0..<sliceLen (HTTPAddrs newConfig)] mem1;
                  (memdAddrs, mem3) = appendToNil mem2 (MemdAddrs newConfig);
                  newConfig = newConfig\<lparr>MemdAddrs := memdAddrs\<rparr>;
                  mem4 = redactLoop redactSystemData (MemdAddrs newConfig)
                           [0..<sliceLen (MemdAddrs newConfig)] mem3;
                  newConfig = (if BucketName newConfig \<noteq> ''''
                               then newConfig\<lparr>BucketName := redactMetaData (BucketName newConfig)\<rparr>
                               else newConfig)
              in Inr (newConfig, h\<lparr>arrays := mem4\<rparr>))
           else Inr (newConfig, h)))"


section \<open>The streaming row reader\<close>

text \<open>
  Modelled from the spec: the Streaming Row Decoder (spec section 4.5) with its
  RowStreamState (section 3). The package's \<open>AnalyticsRowReader\<close>, whose \<open>NextRow\<close>
  and \<open>Err\<close> the helper \<open>hlpRunAnalyticsQuery\<close> calls, is not in the files.
  The decoder consumes the body chunk by chunk; what a row looks like on the wire
  is outside the spec's core (section 1), so the framing is a parameter: \<open>frame\<close>
  looks at the bytes received and not yet decoded and finds a complete row in
  front of them (with the bytes after it), or needs more bytes, or finds the end
  of the rows, or finds bytes that are no row.
\<close>

datatype 'row frame = Row 'row string | NeedMore | EndOfRows | Malformed

text \<open>
  Modelled from the spec: the terminal errors of section 4.5, "a malformed or
  truncated body surfaces as a terminal error on \<open>err()\<close>" (the package's error
  values are not in the files).
\<close>

datatype rowError = TruncatedBody | MalformedBody

text \<open>
  Modelled from the spec: RowStreamState (section 3), "a bounded buffer of
  decoded rows not yet consumed, a terminal error slot (set at most once), and an
  end-of-stream flag", together with the chunks still to arrive and the bytes
  received but not yet decoded. (The bound on the buffer is left out: the reader
  below asks for a chunk only when the buffer is empty.)
\<close>

record 'row RowStreamState =
  unreceived :: "string list"
  undecoded :: string
  rowBuffer :: "'row list"
  terminalError :: "rowError option"
  endOfStream :: bool

text \<open>
  Modelled from the spec: section 4.5, "rows become visible to the consumer as
  soon as they are fully received and parsed" and "a malformed or truncated body
  surfaces as a terminal error". Every complete row in front of the undecoded bytes
  moves to the buffer; a frame that consumes nothing counts as malformed.
\<close>

function decodeRows :: "(string \<Rightarrow> 'row frame) \<Rightarrow> 'row RowStreamState \<Rightarrow> 'row RowStreamState" where
  "decodeRows frame st =
     (case frame (undecoded st) of
        Row row rest \<Rightarrow>
          if length rest < length (undecoded st)
          then decodeRows frame (st\<lparr>undecoded := rest, rowBuffer := rowBuffer st @ [row]\<rparr>)
          else st\<lparr>terminalError := Some MalformedBody, endOfStream := True\<rparr>
      | NeedMore \<Rightarrow> st
      | EndOfRows \<Rightarrow> st\<lparr>endOfStream := True\<rparr>
      | Malformed \<Rightarrow> st\<lparr>terminalError := Some MalformedBody, endOfStream := True\<rparr>)"
  by pat_completeness auto
termination
  by (relation "measure (\<lambda>(frame, st). length (undecoded st))") auto

declare decodeRows.simps [simp del]

text \<open>
  Modelled from the spec: section 4.5, "consumes a byte stream chunk-by-chunk as
  it arrives over the wire". A chunk is appended to the undecoded bytes and the
  rows it completes are decoded; after the end of the stream chunks are ignored.
\<close>

definition receiveChunk :: "(string \<Rightarrow> 'row frame) \<Rightarrow> string \<Rightarrow> 'row RowStreamState \<Rightarrow> 'row RowStreamState" where
  "receiveChunk frame chunk st =
     (if endOfStream st then st
      else decodeRows frame (st\<lparr>undecoded := undecoded st @ chunk\<rparr>))"

text \<open>
  Modelled from the spec: section 4.5, "a truncated body surfaces as a terminal
  error". The body ends; if the end of the rows was not reached before, the
  terminal error is set and the stream ends.
\<close>

definition receiveEnd :: "'row RowStreamState \<Rightarrow> 'row RowStreamState" where
  "receiveEnd st =
     (if endOfStream st then st
      else st\<lparr>terminalError := Some TruncatedBody, endOfStream := True\<rparr>)"

text \<open>
  Modelled from the spec: the RowStreamState of a response that starts to arrive
  (section 3, "per in-flight streamed response"): nothing received, nothing
  buffered, no error, not ended. The framing is asked once about the empty
  input, in case it already ends the rows.
\<close>

definition openStream :: "(string \<Rightarrow> 'row frame) \<Rightarrow> string list \<Rightarrow> 'row RowStreamState" where
  "openStream frame chunks =
     decodeRows frame
       \<lparr>unreceived = chunks, undecoded = [], rowBuffer = [], terminalError = None,
        endOfStream = False\<rparr>"

text \<open>
  Modelled from the spec: section 4.5, a "lazy, forward-only" reader. With
  nothing buffered and the stream not ended, the reader takes chunks off the wire
  until one completes a row or ends the stream, or the body ends.
\<close>

fun awaitRow :: "(string \<Rightarrow> 'row frame) \<Rightarrow> string list \<Rightarrow> 'row RowStreamState \<Rightarrow> 'row option \<times> 'row RowStreamState" where
  "awaitRow frame [] rows = (None, receiveEnd (rows\<lparr>unreceived := []\<rparr>))"
| "awaitRow frame (chunk # chunks) rows =
     (let rows = receiveChunk frame chunk (rows\<lparr>unreceived := chunks\<rparr>)
      in case rowBuffer rows of
           row # buffered \<Rightarrow> (Some row, rows\<lparr>rowBuffer := buffered\<rparr>)
         | [] \<Rightarrow> if endOfStream rows then (None, rows) else awaitRow frame chunks rows)"

text \<open>
  Modelled from the spec: section 4.5, \<open>next() -> row or end-of-stream\<close>, the
  \<open>NextRow\<close> that \<open>hlpRunAnalyticsQuery\<close> calls (\<open>None\<close> is its nil). It hands out
  the oldest buffered row; with the buffer empty it reports end-of-stream once
  the stream has ended, and waits for a row otherwise.
\<close>

definition NextRow :: "(string \<Rightarrow> 'row frame) \<Rightarrow> 'row RowStreamState \<Rightarrow> 'row option \<times> 'row RowStreamState" where
  "NextRow frame rows =
     (case rowBuffer rows of
        row # buffered \<Rightarrow> (Some row, rows\<lparr>rowBuffer := buffered\<rparr>)
      | [] \<Rightarrow> if endOfStream rows then (None, rows) else awaitRow frame (unreceived rows) rows)"

text \<open>
  Modelled from the spec: section 4.5, \<open>err() -> terminal error, valid only after
  end-of-stream\<close>, the \<open>Err\<close> that \<open>hlpRunAnalyticsQuery\<close> calls.
\<close>

definition Err :: "'row RowStreamState \<Rightarrow> rowError option" where
  "Err rows = terminalError rows"

text \<open>
  The loop of \<open>hlpRunAnalyticsQuery\<close> (lines 42 to 53): call \<open>NextRow\<close> until it
  returns nil, collecting the rows, then return them with \<open>Err()\<close>. The loop has
  no bound of its own, so it runs on fuel: \<open>None\<close> is a loop still running when
  the fuel is spent.
\<close>

fun drainRows :: "nat \<Rightarrow> (string \<Rightarrow> 'row frame) \<Rightarrow> 'row RowStreamState \<Rightarrow> 'row list \<Rightarrow> ('row list \<times> rowError option) option" where
  "drainRows 0 frame rows rowBytes = None"
| "drainRows (Suc fuel) frame rows rowBytes =
     (case NextRow frame rows of
        (None, rows') \<Rightarrow> Some (rowBytes, Err rows')
      | (Some row, rows') \<Rightarrow> drainRows fuel frame rows' (rowBytes @ [row]))"

text \<open>The results of \<open>n\<close> successive calls of \<open>NextRow\<close>, and the reader after them.\<close>

fun nextCalls :: "nat \<Rightarrow> (string \<Rightarrow> 'row frame) \<Rightarrow> 'row RowStreamState \<Rightarrow> 'row option list \<times> 'row RowStreamState" where
  "nextCalls 0 frame rows = ([], rows)"
| "nextCalls (Suc n) frame rows =
     (case NextRow frame rows of
        (row, rows') \<Rightarrow> (case nextCalls n frame rows' of (later, rows'') \<Rightarrow> (row # later, rows'')))"

text \<open>
  What the claims call the rows of a response: the body decoded in one piece,
  giving its complete rows in wire order and how it ends (\<open>None\<close>: with the end of
  the rows; otherwise truncated or malformed after them).
\<close>

function parseBody :: "(string \<Rightarrow> 'row frame) \<Rightarrow> string \<Rightarrow> 'row list \<times> rowError option" where
  "parseBody frame body =
     (case frame body of
        Row row rest \<Rightarrow>
          if length rest < length body
          then (case parseBody frame rest of (rows, e) \<Rightarrow> (row # rows, e))
          else ([], Some MalformedBody)
      | NeedMore \<Rightarrow> ([], Some TruncatedBody)
      | EndOfRows \<Rightarrow> ([], None)
      | Malformed \<Rightarrow> ([], Some MalformedBody))"
  by pat_completeness auto
termination
  by (relation "measure (\<lambda>(frame, body). length body)") auto

declare parseBody.simps [simp del]

text \<open>
  A framing that does not change its mind when more bytes arrive: a complete row
  stays that row, the end of the rows stays the end, malformed bytes stay
  malformed.
\<close>

definition stableFrame :: "(string \<Rightarrow> 'row frame) \<Rightarrow> bool" where
  "stableFrame frame =
     ((\<forall>bytes row rest extra.
          frame bytes = Row row rest \<longrightarrow> frame (bytes @ extra) = Row row (rest @ extra))
      \<and> (\<forall>bytes extra. frame bytes = EndOfRows \<longrightarrow> frame (bytes @ extra) = EndOfRows)
      \<and> (\<forall>bytes extra. frame bytes = Malformed \<longrightarrow> frame (bytes @ extra) = Malformed))"

text \<open>
  What a reader still has to hand out and how it will end, and the readers that
  have decoded every row they received.
\<close>

definition ahead :: "(string \<Rightarrow> 'row frame) \<Rightarrow> 'row RowStreamState \<Rightarrow> 'row list \<times> rowError option" where
  "ahead frame st =
     (if endOfStream st then (rowBuffer st, terminalError st)
      else (case parseBody frame (undecoded st @ concat (unreceived st)) of
              (rows, e) \<Rightarrow> (rowBuffer st @ rows, e)))"

definition decoded :: "(string \<Rightarrow> 'row frame) \<Rightarrow> 'row RowStreamState \<Rightarrow> bool" where
  "decoded frame st = (if endOfStream st then True
                       else frame (undecoded st) = NeedMore \<and> terminalError st = None)"

text \<open>
  A framing for evaluation: a row is the bytes up to a semicolon, a full stop in
  front ends the rows, an exclamation mark in front is malformed.
\<close>

definition semicolonFrame :: "string \<Rightarrow> string frame" where
  "semicolonFrame bytes =
     (case bytes of
        [] \<Rightarrow> NeedMore
      | c # cs \<Rightarrow>
          if c = CHR ''.'' then EndOfRows
          else if c = CHR ''!'' then Malformed
          else if CHR '';'' \<in> set bytes
               then Row (takeWhile (\<lambda>b. b \<noteq> CHR '';'') bytes)
                        (tl (dropWhile (\<lambda>b. b \<noteq> CHR '';'') bytes))
               else NeedMore)"

section \<open>The circuit breaker\<close>

text \<open>
  Modelled from the spec: the Circuit Breaker (spec sections 3 and 4.3), whose
  code is not in the files (agent\_config.go only carries its
  \<open>CircuitBreakerConfig\<close>). The two parameters the spec's test names: how many
  consecutive failures open the breaker, and the cooldown in milliseconds.
\<close>

record breakerConfig =
  failureThreshold :: nat
  cooldown :: nat

text \<open>
  Modelled from the spec: the three states of a breaker (section 3, "one of
  {closed, open, half-open}").
\<close>

datatype circuit = Closed | Open | HalfOpen

text \<open>
  Modelled from the spec: CircuitState (section 3), the state of the breaker with
  "a rolling failure/success counter, and a timestamp marking when the breaker
  may next probe". Time is a count of milliseconds; the counter holds the
  failures reported since the last success.
\<close>

record CircuitState =
  circuit :: circuit
  failures :: nat
  nextProbe :: nat

text \<open>
  Modelled from the spec: the outcome of a request that the Transport Dispatcher
  reports to the breaker (section 4.3, \<open>report(node, service, outcome)\<close>).
\<close>

datatype outcome = Success | Failure

text \<open>
  Modelled from the spec: \<open>allow(node, service) -> bool\<close> (section 4.3), for the
  state of one (node, service) pair at time \<open>now\<close>. Closed admits every request;
  open rejects every request until the cooldown has elapsed, and then admits one
  request as the probe and becomes half-open; half-open, with its probe under way,
  rejects.
\<close>

definition allow :: "nat \<Rightarrow> CircuitState \<Rightarrow> bool \<times> CircuitState" where
  "allow now st =
     (case circuit st of
        Closed \<Rightarrow> (True, st)
      | Open \<Rightarrow> if nextProbe st \<le> now then (True, st\<lparr>circuit := HalfOpen\<rparr>) else (False, st)
      | HalfOpen \<Rightarrow> (False, st))"

text \<open>
  Modelled from the spec: \<open>report(node, service, outcome)\<close> (section 4.3). Closed
  counts failures and opens when the threshold is reached, the cooldown running
  from the report; a success clears the count. Half-open returns to closed on the
  probe's success and to open, with the cooldown started again, on its failure.
  A report that reaches an open breaker (from a request admitted earlier) changes
  nothing.
\<close>

definition report :: "breakerConfig \<Rightarrow> nat \<Rightarrow> outcome \<Rightarrow> CircuitState \<Rightarrow> CircuitState" where
  "report config now result st =
     (case circuit st of
        Closed \<Rightarrow>
          (case result of
             Success \<Rightarrow> st\<lparr>failures := 0\<rparr>
           | Failure \<Rightarrow>
               if failureThreshold config \<le> failures st + 1
               then st\<lparr>circuit := Open, failures := 0, nextProbe := now + cooldown config\<rparr>
               else st\<lparr>failures := failures st + 1\<rparr>)
      | HalfOpen \<Rightarrow>
          (case result of
             Success \<Rightarrow> st\<lparr>circuit := Closed, failures := 0\<rparr>
           | Failure \<Rightarrow> st\<lparr>circuit := Open, nextProbe := now + cooldown config\<rparr>)
      | Open \<Rightarrow> st)"

text \<open>The breaker of the spec's test: threshold 3, cooldown 100 ms.\<close>

definition testBreaker :: breakerConfig where
  "testBreaker = \<lparr>failureThreshold = 3, cooldown = 100\<rparr>"


section \<open>A concrete environment\<close>

text \<open>
  Concrete inputs on which the theorems below are evaluated: the zero
  \<open>AgentConfig{}\<close>, and a library whose resolver knows ten connection strings
  for one host, whose file system holds the certificate files \<open>ca.pem\<close> and
  \<open>intermediate.pem\<close>, and whose parsers accept a few literals.
\<close>

definition zeroConfig :: "(string list, unit, string list, string, unit, unit, unit) AgentConfig" where
  "zeroConfig =
     \<lparr>UserAgent = '''', MemdAddrs = [], HTTPAddrs = [], UseTLS = False, BucketName = '''',
      NetworkType = '''', Auth = (), TLSRootCAs = None, TLSSkipVerify = False,
      UseMutationTokens = False, UseCompression = False, UseDurations = False,
      DisableDecompression = False, UseCollections = False, CompressionMinSize = 0,
      CompressionMinRatio = ''0'', HTTPRedialPeriod = 0, HTTPRetryDelay = 0, CccpMaxWait = 0,
      CccpPollPeriod = 0, ConnectTimeout = 0, KVConnectTimeout = 0, KvPoolSize = 0,
      MaxQueueSize = 0, HTTPMaxIdleConns = 0, HTTPMaxIdleConnsPerHost = 0,
      HTTPIdleConnectionTimeout = 0, Tracer = (), NoRootTraceSpans = False,
      DefaultRetryStrategy = (), CircuitBreakerConfig = (), UseZombieLogger = False,
      ZombieLoggerInterval = 0, ZombieLoggerSampleSize = 0,
      DcpAgentPriority = DcpAgentPriorityLow, UseDCPExpiry = False, UseDCPStreamID = False\<rparr>"

definition oneHost :: "bool \<Rightarrow> go_int list \<Rightarrow> go_int list \<Rightarrow> (string \<rightharpoonup> string list) \<Rightarrow> ResolvedConnSpec" where
  "oneHost ssl memdPorts httpPorts opts =
     \<lparr>UseSsl = ssl,
      MemdHosts = map (\<lambda>p. \<lparr>Host = ''10.0.0.1'', Port = p\<rparr>) memdPorts,
      HttpHosts = map (\<lambda>p. \<lparr>Host = ''10.0.0.1'', Port = p\<rparr>) httpPorts,
      Bucket = '''', Options = opts\<rparr>"

definition exampleResolve :: "string \<Rightarrow> error + ResolvedConnSpec" where
  "exampleResolve connStr =
     (if connStr = ''couchbase://10.0.0.1?bootstrap_on=http&kv_connect_timeout=7000&kv_connect_timeout=2500''
      then Inr (oneHost False [11210] [8091]
                  [''bootstrap_on'' \<mapsto> [''http''], ''kv_connect_timeout'' \<mapsto> [''7000'', ''2500'']])
      else if connStr = ''couchbase://10.0.0.1?bootstrap_on=http&kv_connect_timeout=2500''
      then Inr (oneHost False [11210] [8091]
                  [''bootstrap_on'' \<mapsto> [''http''], ''kv_connect_timeout'' \<mapsto> [''2500'']])
      else if connStr = ''couchbase://10.0.0.1?bootstrap_on=cccp''
      then Inr (oneHost False [11210] [8091] [''bootstrap_on'' \<mapsto> [''cccp'']])
      else if connStr = ''couchbase://10.0.0.1:12000?bootstrap_on=http''
      then Inr (oneHost False [12000] [] [''bootstrap_on'' \<mapsto> [''http'']])
      else if connStr = ''http://10.0.0.1:9000?bootstrap_on=cccp''
      then Inr (oneHost False [] [9000] [''bootstrap_on'' \<mapsto> [''cccp'']])
      else if connStr = ''couchbases://10.0.0.1''
      then Inr (oneHost True [11207] [18091] Map.empty)
      else if connStr = ''couchbases://10.0.0.1?bootstrap_on=memd''
      then Inr (oneHost True [11207] [18091] [''bootstrap_on'' \<mapsto> [''memd'']])
      else if connStr = ''couchbases://10.0.0.1?ca_cert_path=ca.pem''
      then Inr (oneHost True [11207] [18091] [''ca_cert_path'' \<mapsto> [''ca.pem'']])
      else if connStr = ''couchbases://10.0.0.1?ca_cert_path=missing.pem&ca_cert_path=ca.pem''
      then Inr (oneHost True [11207] [18091] [''ca_cert_path'' \<mapsto> [''missing.pem'', ''ca.pem'']])
      else if connStr = ''couchbases://10.0.0.1?ca_cert_path=intermediate.pem&ca_cert_path=ca.pem''
      then Inr (oneHost True [11207] [18091] [''ca_cert_path'' \<mapsto> [''intermediate.pem'', ''ca.pem'']])
      else Inl (ErrorString ''bad scheme''))"

definition exampleLibrary :: "(string, string list, string) library" where
  "exampleLibrary =
     \<lparr>gocbconnstr_Parse = (\<lambda>connStr. Inr connStr),
      gocbconnstr_Resolve = exampleResolve,
      ioutil_ReadFile =
        (\<lambda>path. if path = ''ca.pem'' then Inr ''CERTIFICATE 1''
                 else if path = ''intermediate.pem'' then Inr ''CERTIFICATE 2''
                 else Inl (ErrorString ''no such file or directory'')),
      x509_NewCertPool = [],
      AppendCertsFromPEM =
        (\<lambda>roots pem. if take 11 pem = ''CERTIFICATE'' then (roots @ [pem], True)
                      else (roots, False)),
      strconv_ParseInt =
        (\<lambda>s. if s = ''2500'' then Inr 2500 else if s = ''7000'' then Inr 7000
              else Inl (ErrorString ''invalid syntax'')),
      strconv_ParseBool =
        (\<lambda>s. if s = ''true'' then Inr True else if s = ''false'' then Inr False
              else Inl (ErrorString ''invalid syntax'')),
      strconv_ParseFloat =
        (\<lambda>s. if s = ''0.83'' then Inr s else Inl (ErrorString ''invalid syntax''))\<rparr>"

text \<open>
  A memory for \<open>redacted\<close>: one struct at address 1, whose two slices lie in two
  arrays (the second with one slot of spare capacity), and redaction functions
  that wrap their argument in a tag.
\<close>

definition storedConfig :: "(slice, unit, string list, string, unit, unit, unit) AgentConfig" where
  "storedConfig =
     \<lparr>UserAgent = ''agent'',
      MemdAddrs = \<lparr>sliceArray = Some 1, sliceOff = 0, sliceLen = 2, sliceCap = 3\<rparr>,
      HTTPAddrs = \<lparr>sliceArray = Some 0, sliceOff = 0, sliceLen = 2, sliceCap = 2\<rparr>,
      UseTLS = False, BucketName = ''travel'',
      NetworkType = '''', Auth = (), TLSRootCAs = None, TLSSkipVerify = False,
      UseMutationTokens = False, UseCompression = False, UseDurations = False,
      DisableDecompression = False, UseCollections = False, CompressionMinSize = 0,
      CompressionMinRatio = ''0'', HTTPRedialPeriod = 0, HTTPRetryDelay = 0, CccpMaxWait = 0,
      CccpPollPeriod = 0, ConnectTimeout = 0, KVConnectTimeout = 0, KvPoolSize = 0,
      MaxQueueSize = 0, HTTPMaxIdleConns = 0, HTTPMaxIdleConnsPerHost = 0,
      HTTPIdleConnectionTimeout = 0, Tracer = (), NoRootTraceSpans = False,
      DefaultRetryStrategy = (), CircuitBreakerConfig = (), UseZombieLogger = False,
      ZombieLoggerInterval = 0, ZombieLoggerSampleSize = 0,
      DcpAgentPriority = DcpAgentPriorityLow, UseDCPExpiry = False, UseDCPStreamID = False\<rparr>"

definition exampleHeap :: "(unit, string list, string, unit, unit, unit) heap" where
  "exampleHeap =
     \<lparr>structs = [1 \<mapsto> storedConfig],
      arrays = [[''10.0.0.1:8091'', ''10.0.0.2:8091''],
                [''10.0.0.1:11210'', ''10.0.0.2:11210'', '''']]\<rparr>"

definition tagSystemData :: "string \<Rightarrow> string" where
  "tagSystemData v = ''<sd>'' @ v @ ''</sd>''"

definition tagMetaData :: "string \<Rightarrow> string" where
  "tagMetaData v = ''<md>'' @ v @ ''</md>''"

section \<open>FromConnStr: the node addresses\<close>

lemma fetchOption_last:
  "fetchOption spec name =
     (if mapIndex (Options spec) name = [] then ('''', False)
      else (last (mapIndex (Options spec) name), True))"
  by (simp add: fetchOption_def Let_def last_conv_nth)

lemma foldl_append_hosts: "foldl (\<lambda>acc specHost. acc @ [f specHost]) acc hosts = acc @ map f hosts"
  by (induction hosts arbitrary: acc) simp_all

lemma appendHosts_map: "appendHosts hosts = map hostPort hosts"
  by (simp add: appendHosts_def foldl_append_hosts)

lemma runSteps_preserves:
  assumes "\<And>s c e c'. s \<in> set steps \<Longrightarrow> s c = (e, c') \<Longrightarrow> f c' = f c"
    and "runSteps steps config = (e, config')"
  shows "f config' = f config"
  using assms
proof (induction steps arbitrary: config)
  case Nil
  then show ?case by simp
next
  case (Cons s ss)
  obtain e1 c1 where s1: "s config = (e1, c1)" by (cases "s config")
  have f1: "f c1 = f config" using Cons.prems(1) [of s config e1 c1] s1 by simp
  show ?case
  proof (cases e1)
    case None
    then have "runSteps ss c1 = (e, config')" using Cons.prems(2) s1 by simp
    then have "f config' = f c1" using Cons.IH Cons.prems(1) by (metis list.set_intros(2))
    then show ?thesis using f1 by simp
  next
    case (Some err)
    then have "config' = c1" using Cons.prems(2) s1 by simp
    then show ?thesis using f1 by simp
  qed
qed

lemma parsedOption_preserves:
  assumes "\<And>v c. f (assign v c) = f c"
    and "parsedOption spec name parse message assign config = (e, config')"
  shows "f config' = f config"
  using assms by (auto simp: parsedOption_def split: prod.splits if_splits sum.splits)

lemma dcpPriorityStep_preserves:
  assumes "\<And>v c. f (c\<lparr>DcpAgentPriority := v\<rparr>) = f c"
    and "dcpPriorityStep spec config = (e, config')"
  shows "f config' = f config"
  using assms by (auto simp: dcpPriorityStep_def split: prod.splits if_splits)

lemma optionSteps_MemdAddrs:
  assumes "runSteps (optionSteps lib spec) config = (e, config')"
  shows "MemdAddrs config' = MemdAddrs config"
  apply (rule runSteps_preserves [where f = MemdAddrs, OF _ assms])
  apply (auto simp: optionSteps_def elim!: parsedOption_preserves [rotated] dcpPriorityStep_preserves [rotated])
  done

lemma tlsStep_preserves:
  assumes "\<And>c v. f (c\<lparr>TLSRootCAs := v\<rparr>) = f c"
    and "\<And>c v. f (c\<lparr>TLSSkipVerify := v\<rparr>) = f c"
    and "\<And>c v. f (c\<lparr>UseTLS := v\<rparr>) = f c"
    and "tlsStep lib spec config = (e, config')"
  shows "f config' = f config"
  using assms by (auto simp: tlsStep_def Let_def split: if_splits sum.splits)

lemma bucketStep_preserves:
  assumes "\<And>c v. f (c\<lparr>BucketName := v\<rparr>) = f c"
    and "bucketStep spec config = (e, config')"
  shows "f config' = f config"
  using assms by (auto simp: bucketStep_def split: if_splits)

lemma networkStep_preserves:
  assumes "\<And>c v. f (c\<lparr>NetworkType := v\<rparr>) = f c"
    and "networkStep spec config = (e, config')"
  shows "f config' = f config"
  using assms by (auto simp: networkStep_def Let_def split: if_splits prod.splits)

lemma optionSteps_HTTPAddrs:
  assumes "runSteps (optionSteps lib spec) config = (e, config')"
  shows "HTTPAddrs config' = HTTPAddrs config"
  apply (rule runSteps_preserves [where f = HTTPAddrs, OF _ assms])
  apply (auto simp: optionSteps_def elim!: parsedOption_preserves [rotated] dcpPriorityStep_preserves [rotated])
  done

lemma afterBootstrap_addrs:
  assumes "runSteps (tlsStep lib spec # bucketStep spec # networkStep spec # optionSteps lib spec) config = (e, config')"
  shows "MemdAddrs config' = MemdAddrs config \<and> HTTPAddrs config' = HTTPAddrs config"
proof -
  obtain e1 c1 where t: "tlsStep lib spec config = (e1, c1)" by (cases "tlsStep lib spec config")
  obtain e2 c2 where b: "bucketStep spec c1 = (e2, c2)" by (cases "bucketStep spec c1")
  obtain e3 c3 where n: "networkStep spec c2 = (e3, c3)" by (cases "networkStep spec c2")
  obtain e4 c4 where r: "runSteps (optionSteps lib spec) c3 = (e4, c4)"
    by (cases "runSteps (optionSteps lib spec) c3")
  have m1: "MemdAddrs c1 = MemdAddrs config" "HTTPAddrs c1 = HTTPAddrs config"
    using tlsStep_preserves [OF _ _ _ t, of MemdAddrs] tlsStep_preserves [OF _ _ _ t, of HTTPAddrs] by simp_all
  have m2: "MemdAddrs c2 = MemdAddrs c1" "HTTPAddrs c2 = HTTPAddrs c1"
    using bucketStep_preserves [OF _ b, of MemdAddrs] bucketStep_preserves [OF _ b, of HTTPAddrs] by simp_all
  have m3: "MemdAddrs c3 = MemdAddrs c2" "HTTPAddrs c3 = HTTPAddrs c2"
    using networkStep_preserves [OF _ n, of MemdAddrs] networkStep_preserves [OF _ n, of HTTPAddrs] by simp_all
  have m4: "MemdAddrs c4 = MemdAddrs c3" "HTTPAddrs c4 = HTTPAddrs c3"
    using optionSteps_MemdAddrs [OF r] optionSteps_HTTPAddrs [OF r] by simp_all
  have "config' = c1 \<or> config' = c2 \<or> config' = c3 \<or> config' = c4"
    using assms t b n r by (auto split: option.splits)
  then show ?thesis using m1 m2 m3 m4 by auto
qed

text \<open>
  Claim C7. Let \<open>FromConnStr\<close> be called on a connection string that parses and
  resolves to \<open>spec\<close>, and let \<open>vals\<close> be the values of its \<open>bootstrap_on\<close>
  option. If the call returns \<open>nil\<close>, then \<open>MemdAddrs\<close> and \<open>HTTPAddrs\<close> of the
  config are the resolved memcached and HTTP hosts, each formatted as
  \<open>host:port\<close> and in the resolved order, except that \<open>bootstrap_on=http\<close>
  leaves \<open>MemdAddrs\<close> empty and \<open>bootstrap_on=cccp\<close> leaves \<open>HTTPAddrs\<close> empty.
  With \<open>bootstrap_on=http\<close> and no HTTP host, and with \<open>bootstrap_on=cccp\<close> and
  no memcached host, the call returns an error.
\<close>

theorem FromConnStr_node_addresses:
  assumes "gocbconnstr_Parse lib connStr = Inr baseSpec"
    and "gocbconnstr_Resolve lib baseSpec = Inr spec"
    and "vals = mapIndex (Options spec) ''bootstrap_on''"
  shows "(FromConnStr lib connStr config = (None, config') \<longrightarrow>
            MemdAddrs config' =
              (if vals \<noteq> [] \<and> last vals = ''http'' then [] else map hostPort (MemdHosts spec)) \<and>
            HTTPAddrs config' =
              (if vals \<noteq> [] \<and> last vals = ''cccp'' then [] else map hostPort (HttpHosts spec)))
       \<and> (vals \<noteq> [] \<and> last vals = ''http'' \<and> HttpHosts spec = [] \<longrightarrow>
            fst (FromConnStr lib connStr config) \<noteq> None)
       \<and> (vals \<noteq> [] \<and> last vals = ''cccp'' \<and> MemdHosts spec = [] \<longrightarrow>
            fst (FromConnStr lib connStr config) \<noteq> None)"
proof -
  let ?rest = "tlsStep lib spec # bucketStep spec # networkStep spec # optionSteps lib spec"
  have F: "FromConnStr lib connStr config =
             (case bootstrapStep spec config of
                (Some err, c) \<Rightarrow> (Some err, c)
              | (None, c) \<Rightarrow> runSteps ?rest c)"
    using assms(1,2) by (simp add: FromConnStr_def fromResolved_def)
  obtain e0 c0 where b: "bootstrapStep spec config = (e0, c0)" by (cases "bootstrapStep spec config")
  have val: "fst (fetchOption spec ''bootstrap_on'') = (if vals = [] then '''' else last vals)"
    using assms(3) by (simp add: fetchOption_last)
  have ok: "e0 = None \<Longrightarrow>
      MemdAddrs c0 = (if vals \<noteq> [] \<and> last vals = ''http'' then [] else map hostPort (MemdHosts spec)) \<and>
      HTTPAddrs c0 = (if vals \<noteq> [] \<and> last vals = ''cccp'' then [] else map hostPort (HttpHosts spec))"
    using b val by (auto simp: bootstrapStep_def Let_def appendHosts_map split: if_splits)
  have part1: "FromConnStr lib connStr config = (None, config') \<longrightarrow>
            MemdAddrs config' =
              (if vals \<noteq> [] \<and> last vals = ''http'' then [] else map hostPort (MemdHosts spec)) \<and>
            HTTPAddrs config' =
              (if vals \<noteq> [] \<and> last vals = ''cccp'' then [] else map hostPort (HttpHosts spec))"
  proof
    assume a: "FromConnStr lib connStr config = (None, config')"
    then have e0: "e0 = None" and r: "runSteps ?rest c0 = (None, config')"
      using F b by (auto split: option.splits)
    from afterBootstrap_addrs [OF r] ok [OF e0] show "MemdAddrs config' =
              (if vals \<noteq> [] \<and> last vals = ''http'' then [] else map hostPort (MemdHosts spec)) \<and>
            HTTPAddrs config' =
              (if vals \<noteq> [] \<and> last vals = ''cccp'' then [] else map hostPort (HttpHosts spec))"
      by simp
  qed
  have part2: "vals \<noteq> [] \<and> last vals = ''http'' \<and> HttpHosts spec = [] \<longrightarrow>
            fst (FromConnStr lib connStr config) \<noteq> None"
    using F val by (auto simp: bootstrapStep_def Let_def appendHosts_map)
  have part3: "vals \<noteq> [] \<and> last vals = ''cccp'' \<and> MemdHosts spec = [] \<longrightarrow>
            fst (FromConnStr lib connStr config) \<noteq> None"
    using F val by (auto simp: bootstrapStep_def Let_def appendHosts_map)
  show ?thesis using part1 part2 part3 by blast
qed

lemmas example_simps = exampleLibrary_def exampleResolve_def oneHost_def zeroConfig_def
  FromConnStr_def fromResolved_def bootstrapStep_def tlsStep_def bucketStep_def networkStep_def
  optionSteps_def parsedOption_def dcpPriorityStep_def fetchOption_def mapIndex_def appendHosts_def
  hostPort_def formatInt_def formatNat.simps Millisecond_def Let_def certsAppended_def
  lastOccurrence_def

theorem FromConnStr_node_addresses_witness:
  "fst (FromConnStr exampleLibrary
         ''couchbase://10.0.0.1?bootstrap_on=http&kv_connect_timeout=7000&kv_connect_timeout=2500''
         zeroConfig) = None
   \<and> MemdAddrs (snd (FromConnStr exampleLibrary
         ''couchbase://10.0.0.1?bootstrap_on=http&kv_connect_timeout=7000&kv_connect_timeout=2500''
         zeroConfig)) = []
   \<and> HTTPAddrs (snd (FromConnStr exampleLibrary
         ''couchbase://10.0.0.1?bootstrap_on=http&kv_connect_timeout=7000&kv_connect_timeout=2500''
         zeroConfig)) = [''10.0.0.1:8091'']
   \<and> fst (FromConnStr exampleLibrary ''couchbase://10.0.0.1?bootstrap_on=cccp'' zeroConfig) = None
   \<and> MemdAddrs (snd (FromConnStr exampleLibrary ''couchbase://10.0.0.1?bootstrap_on=cccp''
         zeroConfig)) = [''10.0.0.1:11210'']
   \<and> HTTPAddrs (snd (FromConnStr exampleLibrary ''couchbase://10.0.0.1?bootstrap_on=cccp''
         zeroConfig)) = []
   \<and> fst (FromConnStr exampleLibrary ''couchbase://10.0.0.1:12000?bootstrap_on=http'' zeroConfig)
         \<noteq> None
   \<and> fst (FromConnStr exampleLibrary ''http://10.0.0.1:9000?bootstrap_on=cccp'' zeroConfig)
         \<noteq> None"
proof -
  let ?s1 = "''couchbase://10.0.0.1?bootstrap_on=http&kv_connect_timeout=7000&kv_connect_timeout=2500''"
  let ?s2 = "''couchbase://10.0.0.1?bootstrap_on=cccp''"
  let ?s3 = "''couchbase://10.0.0.1:12000?bootstrap_on=http''"
  let ?s4 = "''http://10.0.0.1:9000?bootstrap_on=cccp''"
  have P: "gocbconnstr_Parse exampleLibrary s = Inr s" for s
    by (simp add: exampleLibrary_def)
  have R1: "gocbconnstr_Resolve exampleLibrary ?s1 = Inr (oneHost False [11210] [8091]
      [''bootstrap_on'' \<mapsto> [''http''], ''kv_connect_timeout'' \<mapsto> [''7000'', ''2500'']])"
    by (simp add: exampleLibrary_def exampleResolve_def)
  have R2: "gocbconnstr_Resolve exampleLibrary ?s2 =
      Inr (oneHost False [11210] [8091] [''bootstrap_on'' \<mapsto> [''cccp'']])"
    by (simp add: exampleLibrary_def exampleResolve_def)
  have R3: "gocbconnstr_Resolve exampleLibrary ?s3 =
      Inr (oneHost False [12000] [] [''bootstrap_on'' \<mapsto> [''http'']])"
    by (simp add: exampleLibrary_def exampleResolve_def)
  have R4: "gocbconnstr_Resolve exampleLibrary ?s4 =
      Inr (oneHost False [] [9000] [''bootstrap_on'' \<mapsto> [''cccp'']])"
    by (simp add: exampleLibrary_def exampleResolve_def)
  have a1: "fst (FromConnStr exampleLibrary ?s1 zeroConfig) = None"
    by (simp add: example_simps)
  have a2: "fst (FromConnStr exampleLibrary ?s2 zeroConfig) = None"
    by (simp add: example_simps)
  have c1: "FromConnStr exampleLibrary ?s1 zeroConfig =
      (None, snd (FromConnStr exampleLibrary ?s1 zeroConfig))"
    using a1 by (simp add: prod_eq_iff)
  have c2: "FromConnStr exampleLibrary ?s2 zeroConfig =
      (None, snd (FromConnStr exampleLibrary ?s2 zeroConfig))"
    using a2 by (simp add: prod_eq_iff)
  have t1: "MemdAddrs (snd (FromConnStr exampleLibrary ?s1 zeroConfig)) = [] \<and>
      HTTPAddrs (snd (FromConnStr exampleLibrary ?s1 zeroConfig)) = [''10.0.0.1:8091'']"
    using FromConnStr_node_addresses [OF P R1 refl, of zeroConfig
        "snd (FromConnStr exampleLibrary ?s1 zeroConfig)"] c1
    by (simp add: oneHost_def mapIndex_def hostPort_def formatInt_def formatNat.simps)
  have t2: "MemdAddrs (snd (FromConnStr exampleLibrary ?s2 zeroConfig)) = [''10.0.0.1:11210''] \<and>
      HTTPAddrs (snd (FromConnStr exampleLibrary ?s2 zeroConfig)) = []"
    using FromConnStr_node_addresses [OF P R2 refl, of zeroConfig
        "snd (FromConnStr exampleLibrary ?s2 zeroConfig)"] c2
    by (simp add: oneHost_def mapIndex_def hostPort_def formatInt_def formatNat.simps)
  have t3: "fst (FromConnStr exampleLibrary ?s3 zeroConfig) \<noteq> None"
    using FromConnStr_node_addresses [OF P R3 refl, of zeroConfig]
    by (simp add: oneHost_def mapIndex_def)
  have t4: "fst (FromConnStr exampleLibrary ?s4 zeroConfig) \<noteq> None"
    using FromConnStr_node_addresses [OF P R4 refl, of zeroConfig]
    by (simp add: oneHost_def mapIndex_def)
  show ?thesis using a1 a2 t1 t2 t3 t4 by simp
qed

section \<open>FromConnStr: TLS\<close>

lemma loadCerts_all_good:
  "loadCerts lib roots paths = Inr roots' \<Longrightarrow> path \<in> set paths \<Longrightarrow>
   \<exists>pem r. ioutil_ReadFile lib path = Inr pem \<and> snd (AppendCertsFromPEM lib r pem)"
proof (induction paths arbitrary: roots)
  case Nil
  then show ?case by simp
next
  case (Cons p ps)
  from Cons.prems(1) obtain pem where rd: "ioutil_ReadFile lib p = Inr pem"
    by (auto split: sum.splits)
  obtain r1 ok where ap: "AppendCertsFromPEM lib roots pem = (r1, ok)"
    by (cases "AppendCertsFromPEM lib roots pem")
  from Cons.prems(1) rd ap have ok: "ok" and rest: "loadCerts lib r1 ps = Inr roots'"
    by (auto split: if_splits)
  show ?case
  proof (cases "path = p")
    case True
    then show ?thesis using rd ap ok by (metis snd_conv)
  next
    case False
    then have "path \<in> set ps" using Cons.prems(2) by simp
    then show ?thesis using Cons.IH [OF rest] by simp
  qed
qed

lemma loadCerts_pool:
  "loadCerts lib roots paths = Inr roots' \<Longrightarrow> roots' = certsAppended lib roots paths"
proof (induction paths arbitrary: roots)
  case Nil
  then show ?case by (simp add: certsAppended_def)
next
  case (Cons p ps)
  from Cons.prems obtain pem where rd: "ioutil_ReadFile lib p = Inr pem"
    by (auto split: sum.splits)
  obtain r1 ok where ap: "AppendCertsFromPEM lib roots pem = (r1, ok)"
    by (cases "AppendCertsFromPEM lib roots pem")
  from Cons.prems rd ap have rest: "loadCerts lib r1 ps = Inr roots'"
    by (auto split: if_splits)
  from Cons.IH [OF rest] show ?case using rd ap by (simp add: certsAppended_def)
qed

lemma bootstrapStep_preserves:
  assumes "\<And>c v. f (c\<lparr>MemdAddrs := v\<rparr>) = f c"
    and "\<And>c v. f (c\<lparr>HTTPAddrs := v\<rparr>) = f c"
    and "bootstrapStep spec config = (e, config')"
  shows "f config' = f config"
  using assms by (auto simp: bootstrapStep_def Let_def split: if_splits)

lemma afterTls_preserves:
  assumes r: "runSteps (bucketStep spec # networkStep spec # optionSteps lib spec) config = (e, config')"
  shows "UseTLS config' = UseTLS config" "TLSSkipVerify config' = TLSSkipVerify config"
    "TLSRootCAs config' = TLSRootCAs config"
    apply (rule runSteps_preserves [where f = UseTLS, OF _ r])
    apply (auto simp: optionSteps_def elim!: parsedOption_preserves [rotated]
      dcpPriorityStep_preserves [rotated] bucketStep_preserves [rotated] networkStep_preserves [rotated])[1]
   apply (rule runSteps_preserves [where f = TLSSkipVerify, OF _ r])
   apply (auto simp: optionSteps_def elim!: parsedOption_preserves [rotated]
      dcpPriorityStep_preserves [rotated] bucketStep_preserves [rotated] networkStep_preserves [rotated])[1]
  apply (rule runSteps_preserves [where f = TLSRootCAs, OF _ r])
  apply (auto simp: optionSteps_def elim!: parsedOption_preserves [rotated]
      dcpPriorityStep_preserves [rotated] bucketStep_preserves [rotated] networkStep_preserves [rotated])[1]
  done

lemma FromConnStr_stages:
  assumes "gocbconnstr_Parse lib connStr = Inr baseSpec"
    and "gocbconnstr_Resolve lib baseSpec = Inr spec"
    and "FromConnStr lib connStr config = (e, config')"
  obtains (bootstrap) "bootstrapStep spec config = (e, config')" "e \<noteq> None"
  | (tls) c0 where "bootstrapStep spec config = (None, c0)" "tlsStep lib spec c0 = (e, config')" "e \<noteq> None"
  | (later) c0 c1 where "bootstrapStep spec config = (None, c0)" "tlsStep lib spec c0 = (None, c1)"
      "runSteps (bucketStep spec # networkStep spec # optionSteps lib spec) c1 = (e, config')"
proof -
  obtain e0 c0 where b: "bootstrapStep spec config = (e0, c0)" by (cases "bootstrapStep spec config")
  obtain e1 c1 where t: "tlsStep lib spec c0 = (e1, c1)" by (cases "tlsStep lib spec c0")
  have F: "FromConnStr lib connStr config =
             runSteps (bootstrapStep spec # tlsStep lib spec # bucketStep spec # networkStep spec
               # optionSteps lib spec) config"
    using assms(1,2) by (simp add: FromConnStr_def fromResolved_def)
  show thesis
  proof (cases e0)
    case (Some err)
    then show ?thesis using F b assms(3) bootstrap by simp
  next
    case None
    note e0 = this
    show ?thesis
    proof (cases e1)
      case (Some err)
      then show ?thesis using F b t e0 assms(3) tls by simp
    next
      case None
      then show ?thesis using F b t e0 assms(3) later [of c0 c1] by simp
    qed
  qed
qed

text \<open>
  Claim C8, amended. Let \<open>FromConnStr\<close> be called on a connection string that
  parses and resolves to \<open>spec\<close> with \<open>UseSsl\<close> set, and let \<open>cacertpaths\<close> be the
  values of its \<open>ca_cert_path\<close> option. The TLS section runs only in a call that
  gets past the \<open>bootstrap_on\<close> switch. In such a call: without any
  \<open>ca_cert_path\<close> value, \<open>UseTLS\<close> and \<open>TLSSkipVerify\<close> are left true; with one or
  more values, if the loop over the files ends without an error, \<open>UseTLS\<close> is left
  true, \<open>TLSRootCAs\<close> points at a new pool to which the content of every file was
  appended in order, and \<open>TLSSkipVerify\<close> is as it was (all this also when a later
  option makes the call return an error). In every call, if one of the files
  cannot be read, or is read but \<open>AppendCertsFromPEM\<close> finds no certificate in it,
  the call returns an error. Every call that returns \<open>nil\<close> got past the switch
  and, with files to load, loaded them.
\<close>

theorem FromConnStr_tls:
  assumes P: "gocbconnstr_Parse lib connStr = Inr baseSpec"
    and R: "gocbconnstr_Resolve lib baseSpec = Inr spec"
    and ssl: "UseSsl spec"
    and paths: "cacertpaths = mapIndex (Options spec) ''ca_cert_path''"
    and run: "FromConnStr lib connStr config = (e, config')"
  shows "(cacertpaths = [] \<and> fst (bootstrapStep spec config) = None \<longrightarrow>
            UseTLS config' \<and> TLSSkipVerify config')
       \<and> (cacertpaths \<noteq> [] \<and> fst (bootstrapStep spec config) = None \<and>
          loadCerts lib (x509_NewCertPool lib) cacertpaths = Inr roots \<longrightarrow>
            UseTLS config' \<and> TLSRootCAs config' = Some roots \<and>
            roots = certsAppended lib (x509_NewCertPool lib) cacertpaths \<and>
            TLSSkipVerify config' = TLSSkipVerify config)
       \<and> ((\<exists>path \<in> set cacertpaths.
              (\<exists>err. ioutil_ReadFile lib path = Inl err) \<or>
              (\<exists>pem. ioutil_ReadFile lib path = Inr pem \<and>
                     (\<forall>roots. \<not> snd (AppendCertsFromPEM lib roots pem)))) \<longrightarrow>
            e \<noteq> None)
       \<and> (e = None \<longrightarrow>
            fst (bootstrapStep spec config) = None \<and>
            (cacertpaths \<noteq> [] \<longrightarrow>
               (\<exists>loaded. loadCerts lib (x509_NewCertPool lib) cacertpaths = Inr loaded)))"
proof -
  have part1: "UseTLS config' \<and> TLSSkipVerify config'"
    if a: "cacertpaths = [] \<and> fst (bootstrapStep spec config) = None"
    using P R run
  proof (cases rule: FromConnStr_stages)
    case bootstrap
    then show ?thesis using a by simp
  next
    case (tls c0)
    then show ?thesis using a ssl paths by (simp add: tlsStep_def)
  next
    case (later c0 c1)
    from later(2) a ssl paths have "UseTLS c1 \<and> TLSSkipVerify c1"
      by (auto simp: tlsStep_def)
    then show ?thesis using afterTls_preserves [OF later(3)] by simp
  qed
  have part2: "UseTLS config' \<and> TLSRootCAs config' = Some roots \<and>
            roots = certsAppended lib (x509_NewCertPool lib) cacertpaths \<and>
            TLSSkipVerify config' = TLSSkipVerify config"
    if a: "cacertpaths \<noteq> [] \<and> fst (bootstrapStep spec config) = None \<and>
          loadCerts lib (x509_NewCertPool lib) cacertpaths = Inr roots"
    using P R run
  proof (cases rule: FromConnStr_stages)
    case bootstrap
    then show ?thesis using a by simp
  next
    case (tls c0)
    then show ?thesis using a ssl paths by (simp add: tlsStep_def)
  next
    case (later c0 c1)
    have s0: "TLSSkipVerify c0 = TLSSkipVerify config"
      using bootstrapStep_preserves [OF _ _ later(1), of TLSSkipVerify] by simp
    from later(2) a ssl paths have "UseTLS c1 \<and> TLSRootCAs c1 = Some roots \<and>
        TLSSkipVerify c1 = TLSSkipVerify c0"
      by (auto simp: tlsStep_def Let_def)
    moreover have "roots = certsAppended lib (x509_NewCertPool lib) cacertpaths"
      using a by (intro loadCerts_pool) simp
    ultimately show ?thesis using afterTls_preserves [OF later(3)] s0 by simp
  qed
  have part3: "e \<noteq> None"
    if pin: "path \<in> set cacertpaths"
      and pbad: "(\<exists>err. ioutil_ReadFile lib path = Inl err) \<or>
              (\<exists>pem. ioutil_ReadFile lib path = Inr pem \<and>
                     (\<forall>roots. \<not> snd (AppendCertsFromPEM lib roots pem)))"
    for path
    using P R run
  proof (cases rule: FromConnStr_stages)
    case bootstrap
    then show ?thesis by simp
  next
    case (tls c0)
    then show ?thesis by simp
  next
    case (later c0 c1)
    from pin have ne: "cacertpaths \<noteq> []" by auto
    from later(2) ssl paths ne obtain loaded where
      "loadCerts lib (x509_NewCertPool lib) cacertpaths = Inr loaded"
      by (auto simp: tlsStep_def Let_def split: sum.splits)
    from loadCerts_all_good [OF this pin] pbad show ?thesis by auto
  qed
  have part4: "fst (bootstrapStep spec config) = None \<and>
            (cacertpaths \<noteq> [] \<longrightarrow>
               (\<exists>loaded. loadCerts lib (x509_NewCertPool lib) cacertpaths = Inr loaded))"
    if a: "e = None"
    using P R run
  proof (cases rule: FromConnStr_stages)
    case bootstrap
    then show ?thesis using a by simp
  next
    case (tls c0)
    then show ?thesis using a by simp
  next
    case (later c0 c1)
    from later(2) ssl paths have "cacertpaths \<noteq> [] \<longrightarrow>
        (\<exists>loaded. loadCerts lib (x509_NewCertPool lib) cacertpaths = Inr loaded)"
      by (auto simp: tlsStep_def Let_def split: sum.splits if_splits)
    then show ?thesis using later(1) by simp
  qed
  show ?thesis using part1 part2 part3 part4 by blast
qed

text \<open>
  The claim as stated fails at a connection string that enables SSL, has no
  \<open>ca_cert_path\<close> and is rejected by the \<open>bootstrap_on\<close> switch: the call returns
  before the TLS section and \<open>UseTLS\<close> and \<open>TLSSkipVerify\<close> stay false.
\<close>

theorem FromConnStr_tls_counterexample:
  "gocbconnstr_Resolve exampleLibrary ''couchbases://10.0.0.1?bootstrap_on=memd'' =
     Inr (oneHost True [11207] [18091] [''bootstrap_on'' \<mapsto> [''memd'']])
   \<and> UseSsl (oneHost True [11207] [18091] [''bootstrap_on'' \<mapsto> [''memd'']])
   \<and> mapIndex (Options (oneHost True [11207] [18091] [''bootstrap_on'' \<mapsto> [''memd'']]))
        ''ca_cert_path'' = []
   \<and> FromConnStr exampleLibrary ''couchbases://10.0.0.1?bootstrap_on=memd'' zeroConfig =
     (Some (ErrorString ''bootstrap_on={http,cccp,both}''), zeroConfig)
   \<and> \<not> UseTLS zeroConfig \<and> \<not> TLSSkipVerify zeroConfig"
  by (simp add: example_simps)

theorem FromConnStr_tls_witness:
  "UseTLS (snd (FromConnStr exampleLibrary ''couchbases://10.0.0.1'' zeroConfig))
   \<and> TLSSkipVerify (snd (FromConnStr exampleLibrary ''couchbases://10.0.0.1'' zeroConfig))
   \<and> fst (FromConnStr exampleLibrary ''couchbases://10.0.0.1?ca_cert_path=ca.pem'' zeroConfig) = None
   \<and> UseTLS (snd (FromConnStr exampleLibrary ''couchbases://10.0.0.1?ca_cert_path=ca.pem''
        zeroConfig))
   \<and> TLSRootCAs (snd (FromConnStr exampleLibrary ''couchbases://10.0.0.1?ca_cert_path=ca.pem''
        zeroConfig)) = Some [''CERTIFICATE 1'']
   \<and> \<not> TLSSkipVerify (snd (FromConnStr exampleLibrary ''couchbases://10.0.0.1?ca_cert_path=ca.pem''
        zeroConfig))
   \<and> fst (FromConnStr exampleLibrary
        ''couchbases://10.0.0.1?ca_cert_path=missing.pem&ca_cert_path=ca.pem'' zeroConfig) \<noteq> None"
proof -
  let ?s1 = "''couchbases://10.0.0.1''"
  let ?s2 = "''couchbases://10.0.0.1?ca_cert_path=ca.pem''"
  let ?s3 = "''couchbases://10.0.0.1?ca_cert_path=missing.pem&ca_cert_path=ca.pem''"
  have P: "gocbconnstr_Parse exampleLibrary s = Inr s" for s
    by (simp add: exampleLibrary_def)
  have R1: "gocbconnstr_Resolve exampleLibrary ?s1 = Inr (oneHost True [11207] [18091] Map.empty)"
    by (simp add: exampleLibrary_def exampleResolve_def)
  have R2: "gocbconnstr_Resolve exampleLibrary ?s2 =
      Inr (oneHost True [11207] [18091] [''ca_cert_path'' \<mapsto> [''ca.pem'']])"
    by (simp add: exampleLibrary_def exampleResolve_def)
  have R3: "gocbconnstr_Resolve exampleLibrary ?s3 =
      Inr (oneHost True [11207] [18091] [''ca_cert_path'' \<mapsto> [''missing.pem'', ''ca.pem'']])"
    by (simp add: exampleLibrary_def exampleResolve_def)
  have ssl: "UseSsl (oneHost True m h opts)" for m h opts
    by (simp add: oneHost_def)
  have b: "fst (bootstrapStep (oneHost True [11207] [18091] opts) zeroConfig) = None"
    if "opts ''bootstrap_on'' = None" for opts
    using that
    by (simp add: bootstrapStep_def oneHost_def fetchOption_def mapIndex_def appendHosts_def Let_def)
  have l2: "loadCerts exampleLibrary (x509_NewCertPool exampleLibrary) [''ca.pem''] =
      Inr [''CERTIFICATE 1'']"
    by (simp add: exampleLibrary_def)
  have a2: "fst (FromConnStr exampleLibrary ?s2 zeroConfig) = None"
    by (simp add: example_simps)
  have t1: "UseTLS (snd (FromConnStr exampleLibrary ?s1 zeroConfig)) \<and>
      TLSSkipVerify (snd (FromConnStr exampleLibrary ?s1 zeroConfig))"
    using FromConnStr_tls [OF P R1 ssl refl, of zeroConfig
        "fst (FromConnStr exampleLibrary ?s1 zeroConfig)"
        "snd (FromConnStr exampleLibrary ?s1 zeroConfig)"] b [of Map.empty]
    by (simp add: oneHost_def mapIndex_def)
  have t2: "UseTLS (snd (FromConnStr exampleLibrary ?s2 zeroConfig)) \<and>
      TLSRootCAs (snd (FromConnStr exampleLibrary ?s2 zeroConfig)) = Some [''CERTIFICATE 1''] \<and>
      \<not> TLSSkipVerify (snd (FromConnStr exampleLibrary ?s2 zeroConfig))"
    using FromConnStr_tls [OF P R2 ssl refl, of zeroConfig
        "fst (FromConnStr exampleLibrary ?s2 zeroConfig)"
        "snd (FromConnStr exampleLibrary ?s2 zeroConfig)" "[''CERTIFICATE 1'']"]
      b [of "[''ca_cert_path'' \<mapsto> [''ca.pem'']]"] l2
    by (simp add: oneHost_def mapIndex_def zeroConfig_def)
  have t3: "fst (FromConnStr exampleLibrary ?s3 zeroConfig) \<noteq> None"
    using FromConnStr_tls [OF P R3 ssl refl, of zeroConfig
        "fst (FromConnStr exampleLibrary ?s3 zeroConfig)"
        "snd (FromConnStr exampleLibrary ?s3 zeroConfig)"]
    by (simp add: oneHost_def mapIndex_def exampleLibrary_def)
  show ?thesis using a2 t1 t2 t3 by simp
qed

section \<open>FromConnStr: repeated and missing options\<close>





























































section \<open>redacted: the receiver and its backing arrays\<close>

lemma redactLoop_append:
  "redactLoop f s (xs @ ys) mem = redactLoop f s ys (redactLoop f s xs mem)"
  by (induction xs arbitrary: mem) (simp_all add: Let_def)

lemma redactLoop_nil: "sliceArray s = None \<Longrightarrow> redactLoop f s is mem = mem"
  by (induction "is" arbitrary: mem) (simp_all add: Let_def sliceSet_def)

lemma redactLoop_length: "length (redactLoop f s is mem) = length mem"
  by (induction "is" arbitrary: mem) (simp_all add: Let_def sliceSet_def split: option.splits)

lemma redactLoop_other:
  "sliceArray s = Some a \<Longrightarrow> b \<noteq> a \<Longrightarrow> redactLoop f s is mem ! b = mem ! b"
  by (induction "is" arbitrary: mem) (simp_all add: Let_def sliceSet_def)

lemma redactLoop_fresh:
  assumes "sliceArray s = Some a" "sliceOff s = 0" "a < length mem" "n \<le> length (mem ! a)"
  shows "redactLoop f s [0..<n] mem ! a = map f (take n (mem ! a)) @ drop n (mem ! a)"
  using assms(4)
proof (induction n)
  case 0
  then show ?case by simp
next
  case (Suc n)
  then have n: "n < length (mem ! a)" by simp
  let ?m = "redactLoop f s [0..<n] mem"
  have IH: "?m ! a = map f (take n (mem ! a)) @ drop n (mem ! a)" using Suc by simp
  have len: "a < length ?m" using assms(3) by (simp add: redactLoop_length)
  have get: "sliceGet ?m s n = (mem ! a) ! n"
    using assms(1,2) IH n by (simp add: sliceGet_def nth_append)
  have "redactLoop f s [0..<Suc n] mem ! a = (?m ! a)[n := f ((mem ! a) ! n)]"
    using assms(1,2) len get by (simp add: redactLoop_append Let_def sliceSet_def)
  also have "\<dots> = map f (take (Suc n) (mem ! a)) @ drop (Suc n) (mem ! a)"
    using n IH by (simp add: take_Suc_conv_app_nth list_update_append Cons_nth_drop_Suc [symmetric]
        del: drop_Suc_Cons)
  finally show ?case .
qed

lemma validSlice_elems_length: "validSlice mem s \<Longrightarrow> length (sliceElems mem s) = sliceLen s"
  by (auto simp: validSlice_def sliceElems_def split: option.splits)

lemma copy_stage:
  assumes ap: "appendToNil mem s = (s', mem1)"
    and lp: "mem2 = redactLoop f s' [0..<sliceLen s'] mem1"
  shows "length mem \<le> length mem2"
    and "\<And>a. a < length mem \<Longrightarrow> mem2 ! a = mem ! a"
    and "\<And>b. sliceArray s' = Some b \<Longrightarrow> length mem \<le> b"
    and "validSlice mem s \<Longrightarrow> sliceElems mem2 s' = map f (sliceElems mem s)"
proof -
  show "length mem \<le> length mem2"
    using ap lp by (auto simp: appendToNil_def redactLoop_length split: if_splits)
  show "mem2 ! a = mem ! a" if "a < length mem" for a
  proof (cases "sliceLen s = 0")
    case True
    then have "s' = nilSlice" "mem1 = mem" using ap by (auto simp: appendToNil_def)
    then show ?thesis using lp by (simp add: nilSlice_def)
  next
    case False
    then have s': "sliceArray s' = Some (length mem)" and m1: "mem1 = mem @ [sliceElems mem s]"
      using ap by (auto simp: appendToNil_def)
    have "mem2 ! a = mem1 ! a"
      unfolding lp using s' that by (intro redactLoop_other) auto
    then show ?thesis using m1 that by (simp add: nth_append)
  qed
  show "length mem \<le> b" if "sliceArray s' = Some b" for b
    using ap that by (auto simp: appendToNil_def nilSlice_def split: if_splits)
  show "sliceElems mem2 s' = map f (sliceElems mem s)" if v: "validSlice mem s"
  proof (cases "sliceLen s = 0")
    case True
    then have "s' = nilSlice" using ap by (simp add: appendToNil_def)
    moreover have "sliceElems mem s = []" using True by (simp add: sliceElems_def split: option.splits)
    ultimately show ?thesis by (simp add: sliceElems_def nilSlice_def)
  next
    case False
    then have s': "s' = \<lparr>sliceArray = Some (length mem), sliceOff = 0, sliceLen = sliceLen s,
             sliceCap = sliceLen s\<rparr>" and m1: "mem1 = mem @ [sliceElems mem s]"
      using ap by (auto simp: appendToNil_def)
    have n: "sliceLen s' \<le> length (mem1 ! length mem)"
      using s' m1 validSlice_elems_length [OF v] by simp
    have "mem2 ! length mem = map f (take (sliceLen s') (mem1 ! length mem)) @ drop (sliceLen s') (mem1 ! length mem)"
      unfolding lp using s' m1 n by (intro redactLoop_fresh) auto
    then have "mem2 ! length mem = map f (sliceElems mem s)"
      using s' m1 validSlice_elems_length [OF v] by simp
    then show ?thesis using s' validSlice_elems_length [OF v] by (simp add: sliceElems_def)
  qed
qed

lemma sliceElems_same:
  "validSlice mem s \<Longrightarrow> (\<And>a. a < length mem \<Longrightarrow> mem' ! a = mem ! a) \<Longrightarrow>
   sliceElems mem' s = sliceElems mem s"
  by (auto simp: validSlice_def sliceElems_def split: option.splits)

lemma validSlice_mono:
  "validSlice mem s \<Longrightarrow> (\<And>a. a < length mem \<Longrightarrow> mem' ! a = mem ! a) \<Longrightarrow>
   length mem \<le> length mem' \<Longrightarrow> validSlice mem' s"
  by (auto simp: validSlice_def split: option.splits)

text \<open>
  Claim C9. Called on a receiver that points at a struct \<open>c\<close>, \<open>redacted\<close> returns
  (it does not panic), at every redaction level. The structs in memory, the
  receiver's among them, are as before, and so is every string array that existed
  before the call. The returned struct is \<open>c\<close> itself when redaction is not full.
  Under full redaction it is \<open>c\<close> with three fields replaced: \<open>HTTPAddrs\<close> and
  \<open>MemdAddrs\<close> are nil or point at arrays allocated by the call, holding the
  redacted elements of the receiver's slices, and \<open>BucketName\<close> is redacted when
  not empty.
\<close>

theorem redacted_leaves_receiver:
  assumes c: "structs h config = Some c"
  shows "\<exists>newConfig h'.
     redacted full redactSystemData redactMetaData h config = Inr (newConfig, h')
     \<and> structs h' = structs h
     \<and> length (arrays h) \<le> length (arrays h')
     \<and> (\<forall>a. a < length (arrays h) \<longrightarrow> arrays h' ! a = arrays h ! a)
     \<and> (\<not> full \<longrightarrow> newConfig = c \<and> h' = h)
     \<and> (full \<longrightarrow>
          newConfig = c\<lparr>HTTPAddrs := HTTPAddrs newConfig, MemdAddrs := MemdAddrs newConfig,
                         BucketName := (if BucketName c \<noteq> '''' then redactMetaData (BucketName c)
                                        else BucketName c)\<rparr>
          \<and> (\<forall>a. sliceArray (HTTPAddrs newConfig) = Some a \<longrightarrow> length (arrays h) \<le> a)
          \<and> (\<forall>a. sliceArray (MemdAddrs newConfig) = Some a \<longrightarrow> length (arrays h) \<le> a)
          \<and> (validSlice (arrays h) (HTTPAddrs c) \<longrightarrow>
                sliceElems (arrays h') (HTTPAddrs newConfig) =
                  map redactSystemData (sliceElems (arrays h) (HTTPAddrs c)))
          \<and> (validSlice (arrays h) (MemdAddrs c) \<longrightarrow>
                sliceElems (arrays h') (MemdAddrs newConfig) =
                  map redactSystemData (sliceElems (arrays h) (MemdAddrs c))))"
proof (cases full)
  case False
  then show ?thesis using c by (simp add: redacted_def)
next
  case True
  obtain s1 m1 where a1: "appendToNil (arrays h) (HTTPAddrs c) = (s1, m1)"
    by (cases "appendToNil (arrays h) (HTTPAddrs c)")
  define m2 where "m2 = redactLoop redactSystemData s1 [0..<sliceLen s1] m1"
  obtain s2 m3 where a2: "appendToNil m2 (MemdAddrs c) = (s2, m3)"
    by (cases "appendToNil m2 (MemdAddrs c)")
  define m4 where "m4 = redactLoop redactSystemData s2 [0..<sliceLen s2] m3"
  define nc where "nc = c\<lparr>HTTPAddrs := s1, MemdAddrs := s2,
      BucketName := (if BucketName c \<noteq> '''' then redactMetaData (BucketName c) else BucketName c)\<rparr>"
  note st1 = copy_stage [OF a1 m2_def]
  note st2 = copy_stage [OF a2 m4_def]
  have run: "redacted full redactSystemData redactMetaData h config = Inr (nc, h\<lparr>arrays := m4\<rparr>)"
    using c True a1 a2 by (simp add: redacted_def Let_def m2_def m4_def nc_def)
  have len: "length (arrays h) \<le> length m4" using st1(1) st2(1) by simp
  have old: "m4 ! a = arrays h ! a" if "a < length (arrays h)" for a
    using st1(2) [OF that] st2(2) [of a] st1(1) that by simp
  have f1: "length (arrays h) \<le> a" if "sliceArray s1 = Some a" for a using st1(3) that by simp
  have f2: "length (arrays h) \<le> a" if "sliceArray s2 = Some a" for a
    using st2(3) [OF that] st1(1) by simp
  have e1: "sliceElems m4 s1 = map redactSystemData (sliceElems (arrays h) (HTTPAddrs c))"
    if v: "validSlice (arrays h) (HTTPAddrs c)"
  proof -
    have "sliceElems m2 s1 = map redactSystemData (sliceElems (arrays h) (HTTPAddrs c))"
      using st1(4) [OF v] .
    moreover have "sliceElems m4 s1 = sliceElems m2 s1"
    proof (cases "sliceArray s1")
      case None
      then show ?thesis by (simp add: sliceElems_def)
    next
      case (Some a)
      then have "a = length (arrays h)" "length m2 = Suc (length (arrays h))"
        using a1 by (auto simp: appendToNil_def nilSlice_def m2_def redactLoop_length split: if_splits)
      then have "m4 ! a = m2 ! a" using st2(2) [of a] by simp
      then show ?thesis using Some by (simp add: sliceElems_def)
    qed
    ultimately show ?thesis by simp
  qed
  have e2: "sliceElems m4 s2 = map redactSystemData (sliceElems (arrays h) (MemdAddrs c))"
    if v: "validSlice (arrays h) (MemdAddrs c)"
  proof -
    have v2: "validSlice m2 (MemdAddrs c)"
      by (rule validSlice_mono [OF v st1(2) st1(1)])
    have "sliceElems m2 (MemdAddrs c) = sliceElems (arrays h) (MemdAddrs c)"
      by (rule sliceElems_same [OF v st1(2)])
    then show ?thesis using st2(4) [OF v2] by simp
  qed
  have shape: "nc = c\<lparr>HTTPAddrs := HTTPAddrs nc, MemdAddrs := MemdAddrs nc,
      BucketName := (if BucketName c \<noteq> '''' then redactMetaData (BucketName c) else BucketName c)\<rparr>"
    by (simp add: nc_def)
  have h1: "HTTPAddrs nc = s1" and h2: "MemdAddrs nc = s2" by (simp_all add: nc_def)
  show ?thesis
  proof (intro exI conjI impI allI)
    show "redacted full redactSystemData redactMetaData h config = Inr (nc, h\<lparr>arrays := m4\<rparr>)"
      by (rule run)
    show "structs (h\<lparr>arrays := m4\<rparr>) = structs h" by simp
    show "length (arrays h) \<le> length (arrays (h\<lparr>arrays := m4\<rparr>))" using len by simp
    show "arrays (h\<lparr>arrays := m4\<rparr>) ! a = arrays h ! a" if "a < length (arrays h)" for a
      using old [OF that] by simp
    show "nc = c" if "\<not> full" using that True by simp
    show "h\<lparr>arrays := m4\<rparr> = h" if "\<not> full" using that True by simp
    show "nc = c\<lparr>HTTPAddrs := HTTPAddrs nc, MemdAddrs := MemdAddrs nc,
      BucketName := (if BucketName c \<noteq> '''' then redactMetaData (BucketName c) else BucketName c)\<rparr>"
      by (rule shape)
    show "length (arrays h) \<le> a" if "sliceArray (HTTPAddrs nc) = Some a" for a
      using f1 that h1 by simp
    show "length (arrays h) \<le> a" if "sliceArray (MemdAddrs nc) = Some a" for a
      using f2 that h2 by simp
    show "sliceElems (arrays (h\<lparr>arrays := m4\<rparr>)) (HTTPAddrs nc) =
        map redactSystemData (sliceElems (arrays h) (HTTPAddrs c))"
      if "validSlice (arrays h) (HTTPAddrs c)" using e1 [OF that] h1 by simp
    show "sliceElems (arrays (h\<lparr>arrays := m4\<rparr>)) (MemdAddrs nc) =
        map redactSystemData (sliceElems (arrays h) (MemdAddrs c))"
      if "validSlice (arrays h) (MemdAddrs c)" using e2 [OF that] h2 by simp
  qed
qed

theorem redacted_leaves_receiver_witness:
  "(case redacted True tagSystemData tagMetaData exampleHeap 1 of
      Inl p \<Rightarrow> False
    | Inr (newConfig, h') \<Rightarrow>
        structs h' = structs exampleHeap
        \<and> take 2 (arrays h') = arrays exampleHeap
        \<and> sliceElems (arrays h') (HTTPAddrs newConfig) =
            [''<sd>10.0.0.1:8091</sd>'', ''<sd>10.0.0.2:8091</sd>'']
        \<and> sliceElems (arrays h') (MemdAddrs newConfig) =
            [''<sd>10.0.0.1:11210</sd>'', ''<sd>10.0.0.2:11210</sd>'']
        \<and> BucketName newConfig = ''<md>travel</md>''
        \<and> UserAgent newConfig = ''agent'')"
proof -
  have c: "structs exampleHeap 1 = Some storedConfig" by (simp add: exampleHeap_def)
  from redacted_leaves_receiver [OF c, of True tagSystemData tagMetaData]
  obtain newConfig h' where
    run: "redacted True tagSystemData tagMetaData exampleHeap 1 = Inr (newConfig, h')"
    and st: "structs h' = structs exampleHeap"
    and len: "length (arrays exampleHeap) \<le> length (arrays h')"
    and old: "\<forall>a. a < length (arrays exampleHeap) \<longrightarrow> arrays h' ! a = arrays exampleHeap ! a"
    and shape: "newConfig = storedConfig\<lparr>HTTPAddrs := HTTPAddrs newConfig,
        MemdAddrs := MemdAddrs newConfig,
        BucketName := (if BucketName storedConfig \<noteq> '''' then tagMetaData (BucketName storedConfig)
                       else BucketName storedConfig)\<rparr>"
    and e1: "validSlice (arrays exampleHeap) (HTTPAddrs storedConfig) \<longrightarrow>
        sliceElems (arrays h') (HTTPAddrs newConfig) =
          map tagSystemData (sliceElems (arrays exampleHeap) (HTTPAddrs storedConfig))"
    and e2: "validSlice (arrays exampleHeap) (MemdAddrs storedConfig) \<longrightarrow>
        sliceElems (arrays h') (MemdAddrs newConfig) =
          map tagSystemData (sliceElems (arrays exampleHeap) (MemdAddrs storedConfig))"
    by auto
  have l2: "length (arrays exampleHeap) = 2" by (simp add: exampleHeap_def)
  have t: "take 2 (arrays h') = arrays exampleHeap"
    using len old l2 by (intro nth_equalityI) auto
  have v1: "validSlice (arrays exampleHeap) (HTTPAddrs storedConfig)"
    and v2: "validSlice (arrays exampleHeap) (MemdAddrs storedConfig)"
    by (simp_all add: validSlice_def exampleHeap_def storedConfig_def)
  have h: "sliceElems (arrays h') (HTTPAddrs newConfig) =
      [''<sd>10.0.0.1:8091</sd>'', ''<sd>10.0.0.2:8091</sd>'']"
    using e1 v1 by (simp add: sliceElems_def exampleHeap_def storedConfig_def tagSystemData_def)
  have m: "sliceElems (arrays h') (MemdAddrs newConfig) =
      [''<sd>10.0.0.1:11210</sd>'', ''<sd>10.0.0.2:11210</sd>'']"
    using e2 v2 by (simp add: sliceElems_def exampleHeap_def storedConfig_def tagSystemData_def)
  have b: "BucketName newConfig = ''<md>travel</md>''"
    by (subst shape) (simp add: storedConfig_def tagMetaData_def)
  have u: "UserAgent newConfig = ''agent''"
    by (subst shape) (simp add: storedConfig_def)
  show ?thesis using run st t h m b u by simp
qed

section \<open>The streaming row reader: order, end of stream, terminal error\<close>

lemma stableFrame_Row:
  "stableFrame frame \<Longrightarrow> frame bytes = Row row rest \<Longrightarrow> frame (bytes @ extra) = Row row (rest @ extra)"
  by (simp add: stableFrame_def)

lemma stableFrame_End:
  "stableFrame frame \<Longrightarrow> frame bytes = EndOfRows \<Longrightarrow> frame (bytes @ extra) = EndOfRows"
  by (simp add: stableFrame_def)

lemma stableFrame_Malformed:
  "stableFrame frame \<Longrightarrow> frame bytes = Malformed \<Longrightarrow> frame (bytes @ extra) = Malformed"
  by (simp add: stableFrame_def)

lemma decodeRows_ahead:
  "stableFrame frame \<Longrightarrow> \<not> endOfStream st \<Longrightarrow> terminalError st = None \<Longrightarrow>
   ahead frame (decodeRows frame st) = ahead frame st \<and> decoded frame (decodeRows frame st)
   \<and> unreceived (decodeRows frame st) = unreceived st"
proof (induction frame st rule: decodeRows.induct)
  case (1 frame st)
  note stable = "1.prems"(1)
  let ?w = "concat (unreceived st)"
  show ?case
  proof (cases "frame (undecoded st)")
    case (Row row rest)
    show ?thesis
    proof (cases "length rest < length (undecoded st)")
      case True
      let ?st = "st\<lparr>undecoded := rest, rowBuffer := rowBuffer st @ [row]\<rparr>"
      have d: "decodeRows frame st = decodeRows frame ?st"
        using Row True by (subst decodeRows.simps) simp
      have IH: "ahead frame (decodeRows frame ?st) = ahead frame ?st \<and> decoded frame (decodeRows frame ?st)
          \<and> unreceived (decodeRows frame ?st) = unreceived ?st"
        using "1.IH" [OF Row True] "1.prems" by simp
      have "frame (undecoded st @ ?w) = Row row (rest @ ?w)"
        using stableFrame_Row [OF stable Row] .
      then have "parseBody frame (undecoded st @ ?w) =
          (case parseBody frame (rest @ ?w) of (rows, e) \<Rightarrow> (row # rows, e))"
        using True by (subst parseBody.simps) simp
      then have "ahead frame ?st = ahead frame st"
        using "1.prems" by (simp add: ahead_def split: prod.splits)
      then show ?thesis using d IH by simp
    next
      case False
      have d: "decodeRows frame st = st\<lparr>terminalError := Some MalformedBody, endOfStream := True\<rparr>"
        using Row False by (subst decodeRows.simps) simp
      have "frame (undecoded st @ ?w) = Row row (rest @ ?w)"
        using stableFrame_Row [OF stable Row] .
      then have "parseBody frame (undecoded st @ ?w) = ([], Some MalformedBody)"
        using False by (subst parseBody.simps) simp
      then show ?thesis using d "1.prems" by (simp add: ahead_def decoded_def)
    qed
  next
    case NeedMore
    then have d: "decodeRows frame st = st" by (subst decodeRows.simps) simp
    then show ?thesis using NeedMore "1.prems" by (simp add: decoded_def)
  next
    case EndOfRows
    then have d: "decodeRows frame st = st\<lparr>endOfStream := True\<rparr>" by (subst decodeRows.simps) simp
    have "frame (undecoded st @ ?w) = EndOfRows"
      using stableFrame_End [OF stable EndOfRows] .
    then have "parseBody frame (undecoded st @ ?w) = ([], None)"
      by (subst parseBody.simps) simp
    then show ?thesis using d "1.prems" by (simp add: ahead_def decoded_def)
  next
    case Malformed
    then have d: "decodeRows frame st = st\<lparr>terminalError := Some MalformedBody, endOfStream := True\<rparr>"
      by (subst decodeRows.simps) simp
    have "frame (undecoded st @ ?w) = Malformed"
      using stableFrame_Malformed [OF stable Malformed] .
    then have "parseBody frame (undecoded st @ ?w) = ([], Some MalformedBody)"
      by (subst parseBody.simps) simp
    then show ?thesis using d "1.prems" by (simp add: ahead_def decoded_def)
  qed
qed

lemma openStream_ahead:
  assumes "stableFrame frame"
  shows "ahead frame (openStream frame chunks) = parseBody frame (concat chunks)"
    and "decoded frame (openStream frame chunks)"
  using decodeRows_ahead [OF assms, of "\<lparr>unreceived = chunks, undecoded = [], rowBuffer = [],
      terminalError = None, endOfStream = False\<rparr>"]
  by (simp_all add: openStream_def ahead_def)

lemma receiveChunk_ahead:
  assumes "stableFrame frame" "\<not> endOfStream st" "terminalError st = None"
  shows "ahead frame (receiveChunk frame chunk (st\<lparr>unreceived := chunks\<rparr>)) =
           ahead frame (st\<lparr>unreceived := chunk # chunks\<rparr>)"
    and "decoded frame (receiveChunk frame chunk (st\<lparr>unreceived := chunks\<rparr>))"
    and "unreceived (receiveChunk frame chunk (st\<lparr>unreceived := chunks\<rparr>)) = chunks"
  using decodeRows_ahead [OF assms(1), of "st\<lparr>unreceived := chunks, undecoded := undecoded st @ chunk\<rparr>"]
    assms(2,3)
  by (simp_all add: receiveChunk_def ahead_def)

lemma awaitRow_ahead:
  assumes "stableFrame frame"
  shows "decoded frame st \<Longrightarrow> \<not> endOfStream st \<Longrightarrow> rowBuffer st = [] \<Longrightarrow>
         awaitRow frame chunks st = (r, st') \<Longrightarrow>
         decoded frame st' \<and>
         (case ahead frame (st\<lparr>unreceived := chunks\<rparr>) of
            ([], e) \<Rightarrow> r = None \<and> ahead frame st' = ([], e) \<and> endOfStream st'
          | (row # rows, e) \<Rightarrow> r = Some row \<and> ahead frame st' = (rows, e))"
proof (induction chunks arbitrary: st)
  case Nil
  have "parseBody frame (undecoded st) = ([], Some TruncatedBody)"
    using Nil.prems(1,2) by (subst parseBody.simps) (simp add: decoded_def)
  then show ?case using Nil.prems by (auto simp: receiveEnd_def ahead_def decoded_def)
next
  case (Cons chunk chunks)
  let ?st = "receiveChunk frame chunk (st\<lparr>unreceived := chunks\<rparr>)"
  have t: "terminalError st = None" using Cons.prems(1,2) by (simp add: decoded_def)
  note rc = receiveChunk_ahead [OF assms Cons.prems(2) t, of chunk chunks]
  show ?case
  proof (cases "rowBuffer ?st")
    case (Cons row buffered)
    then have res: "r = Some row" "st' = ?st\<lparr>rowBuffer := buffered\<rparr>"
      using Cons.prems(4) by (simp_all add: Let_def)
    have "ahead frame ?st = (case ahead frame st' of (rows, e) \<Rightarrow> (row # rows, e))"
      using Cons res by (simp add: ahead_def split: prod.splits)
    moreover have "decoded frame st'" using rc(2) res by (simp add: decoded_def)
    ultimately show ?thesis using rc(1) res by (auto split: prod.splits)
  next
    case Nil
    note empty = this
    show ?thesis
    proof (cases "endOfStream ?st")
      case True
      then have res: "r = None" "st' = ?st" using Cons.prems(4) empty by (simp_all add: Let_def)
      have "ahead frame ?st = ([], terminalError ?st)" using True empty by (simp add: ahead_def)
      then show ?thesis using rc(1,2) res True by simp
    next
      case False
      then have aw: "awaitRow frame chunks ?st = (r, st')"
        using Cons.prems(4) empty by (simp add: Let_def)
      have "?st\<lparr>unreceived := chunks\<rparr> = ?st" using rc(3) by simp
      then show ?thesis using Cons.IH [OF rc(2) False empty aw] rc(1) by simp
    qed
  qed
qed

lemma NextRow_ahead:
  assumes "stableFrame frame" "decoded frame st" "NextRow frame st = (r, st')"
  shows "decoded frame st' \<and>
         (case ahead frame st of
            ([], e) \<Rightarrow> r = None \<and> ahead frame st' = ([], e) \<and> endOfStream st'
          | (row # rows, e) \<Rightarrow> r = Some row \<and> ahead frame st' = (rows, e))"
proof (cases "rowBuffer st")
  case (Cons row buffered)
  then have res: "r = Some row" "st' = st\<lparr>rowBuffer := buffered\<rparr>"
    using assms(3) by (simp_all add: NextRow_def)
  have "ahead frame st = (case ahead frame st' of (rows, e) \<Rightarrow> (row # rows, e))"
    using Cons res by (simp add: ahead_def split: prod.splits)
  moreover have "decoded frame st'" using assms(2) res by (simp add: decoded_def)
  ultimately show ?thesis using res by (auto split: prod.splits)
next
  case Nil
  show ?thesis
  proof (cases "endOfStream st")
    case True
    then show ?thesis using assms(2,3) Nil by (simp add: NextRow_def ahead_def)
  next
    case False
    then have "awaitRow frame (unreceived st) st = (r, st')"
      using assms(3) Nil by (simp add: NextRow_def)
    from awaitRow_ahead [OF assms(1,2) False Nil this] show ?thesis by simp
  qed
qed

lemma ahead_at_end: "endOfStream st \<Longrightarrow> ahead frame st = (rows, e) \<Longrightarrow> Err st = e"
  by (simp add: ahead_def Err_def)

lemma nextCalls_at_end:
  "stableFrame frame \<Longrightarrow> decoded frame st \<Longrightarrow> ahead frame st = ([], e) \<Longrightarrow>
   fst (nextCalls k frame st) = replicate k None \<and>
   (0 < k \<longrightarrow> Err (snd (nextCalls k frame st)) = e) \<and>
   ahead frame (snd (nextCalls k frame st)) = ([], e)"
proof (induction k arbitrary: st)
  case 0
  then show ?case by simp
next
  case (Suc k)
  obtain r st' where n: "NextRow frame st = (r, st')" by (cases "NextRow frame st")
  from NextRow_ahead [OF Suc.prems(1,2) n] Suc.prems(3)
  have d: "decoded frame st'" and r: "r = None" and a: "ahead frame st' = ([], e)"
    and eos: "endOfStream st'" by simp_all
  note IH = Suc.IH [OF Suc.prems(1) d a]
  have e0: "Err st' = e" using ahead_at_end [OF eos a] .
  show ?case
  proof (cases k)
    case 0
    then show ?thesis using n r a e0 by simp
  next
    case (Suc j)
    then show ?thesis using n r IH by (simp add: split_beta)
  qed
qed

lemma nextCalls_rows:
  "stableFrame frame \<Longrightarrow> decoded frame st \<Longrightarrow> ahead frame st = (rows, e) \<Longrightarrow>
   fst (nextCalls (length rows + k) frame st) = map Some rows @ replicate k None \<and>
   (0 < k \<longrightarrow> Err (snd (nextCalls (length rows + k) frame st)) = e)"
proof (induction rows arbitrary: st)
  case Nil
  then show ?case using nextCalls_at_end [of frame st e k] by simp
next
  case (Cons row rows)
  obtain r st' where n: "NextRow frame st = (r, st')" by (cases "NextRow frame st")
  from NextRow_ahead [OF Cons.prems(1,2) n] Cons.prems(3)
  have d: "decoded frame st'" and r: "r = Some row" and a: "ahead frame st' = (rows, e)"
    by simp_all
  from Cons.IH [OF Cons.prems(1) d a] n r show ?case by (simp add: split_beta)
qed

lemma drainRows_rows:
  "stableFrame frame \<Longrightarrow> decoded frame st \<Longrightarrow> ahead frame st = (rows, e) \<Longrightarrow>
   length rows < fuel \<Longrightarrow> drainRows fuel frame st rowBytes = Some (rowBytes @ rows, e)"
proof (induction rows arbitrary: st fuel rowBytes)
  case Nil
  obtain n where fuel: "fuel = Suc n" using Nil.prems(4) by (cases fuel) auto
  obtain r st' where n: "NextRow frame st = (r, st')" by (cases "NextRow frame st")
  from NextRow_ahead [OF Nil.prems(1,2) n] Nil.prems(3)
  have r: "r = None" and a: "ahead frame st' = ([], e)" and eos: "endOfStream st'" by simp_all
  show ?case using fuel n r ahead_at_end [OF eos a] by simp
next
  case (Cons row rows)
  obtain m where fuel: "fuel = Suc m" and m: "length rows < m"
    using Cons.prems(4) by (cases fuel) auto
  obtain r st' where n: "NextRow frame st = (r, st')" by (cases "NextRow frame st")
  from NextRow_ahead [OF Cons.prems(1,2) n] Cons.prems(3)
  have d: "decoded frame st'" and r: "r = Some row" and a: "ahead frame st' = (rows, e)"
    by simp_all
  from Cons.IH [OF Cons.prems(1) d a m, of "rowBytes @ [row]"] fuel n r show ?case by simp
qed

text \<open>
  Claim C4. Let the framing be stable and let the body of a response, decoded in
  one piece, hold the rows \<open>rows\<close> and then the end of the rows. However the body
  is cut into chunks, the first \<open>length rows\<close> calls of \<open>NextRow\<close> return the rows in
  wire order and every later call returns end-of-stream; the loop of
  \<open>hlpRunAnalyticsQuery\<close> ends when it has more fuel than there are rows, with
  exactly these rows and a nil \<open>Err()\<close>.
\<close>

theorem NextRow_wire_order:
  assumes "stableFrame frame"
    and "parseBody frame (concat chunks) = (rows, None)"
  shows "fst (nextCalls (length rows + k) frame (openStream frame chunks)) =
           map Some rows @ replicate k None
       \<and> (length rows < fuel \<longrightarrow>
            drainRows fuel frame (openStream frame chunks) [] = Some (rows, None))"
proof -
  have a: "ahead frame (openStream frame chunks) = (rows, None)"
    using openStream_ahead(1) [OF assms(1)] assms(2) by simp
  have d: "decoded frame (openStream frame chunks)"
    using openStream_ahead(2) [OF assms(1)] .
  show ?thesis
    using nextCalls_rows [OF assms(1) d a] drainRows_rows [OF assms(1) d a, of fuel "[]"] by simp
qed

text \<open>
  Claim C5. Let the framing be stable and let the body of a response, decoded in
  one piece, hold the complete rows \<open>rows\<close> and then be truncated or malformed
  (error \<open>e\<close>). However the body is cut into chunks, the calls of \<open>NextRow\<close> return
  exactly these rows, in order, and then end-of-stream, never anything else; once
  end-of-stream has been returned \<open>Err()\<close> is \<open>e\<close>, and the loop of
  \<open>hlpRunAnalyticsQuery\<close> returns the rows with that error.
\<close>

theorem NextRow_truncated_body:
  assumes "stableFrame frame"
    and "parseBody frame (concat chunks) = (rows, Some e)"
  shows "fst (nextCalls (length rows + Suc k) frame (openStream frame chunks)) =
           map Some rows @ replicate (Suc k) None
       \<and> Err (snd (nextCalls (length rows + Suc k) frame (openStream frame chunks))) = Some e
       \<and> (length rows < fuel \<longrightarrow>
            drainRows fuel frame (openStream frame chunks) [] = Some (rows, Some e))"
proof -
  have a: "ahead frame (openStream frame chunks) = (rows, Some e)"
    using openStream_ahead(1) [OF assms(1)] assms(2) by simp
  have d: "decoded frame (openStream frame chunks)"
    using openStream_ahead(2) [OF assms(1)] .
  show ?thesis
    using nextCalls_rows [OF assms(1) d a, of "Suc k"] drainRows_rows [OF assms(1) d a, of fuel "[]"]
    by simp
qed

lemma semicolonFrame_stable: "stableFrame semicolonFrame"
  unfolding stableFrame_def
proof (intro conjI allI impI)
  fix bytes row rest extra
  assume a: "semicolonFrame bytes = Row row rest"
  then obtain c cs where b: "bytes = c # cs" by (cases bytes) (auto simp: semicolonFrame_def)
  from a b have c: "c \<noteq> CHR ''.''" "c \<noteq> CHR ''!''" and s: "CHR '';'' \<in> set bytes"
    and row: "row = takeWhile (\<lambda>b. b \<noteq> CHR '';'') bytes"
    and rest: "rest = tl (dropWhile (\<lambda>b. b \<noteq> CHR '';'') bytes)"
    by (auto simp: semicolonFrame_def split: if_splits)
  from s have ne: "dropWhile (\<lambda>b. b \<noteq> CHR '';'') bytes \<noteq> []" by (simp add: dropWhile_eq_Nil_conv)
  from s obtain x where x: "x \<in> set bytes" "\<not> x \<noteq> CHR '';''" by auto
  have tw: "takeWhile (\<lambda>b. b \<noteq> CHR '';'') (bytes @ extra) = takeWhile (\<lambda>b. b \<noteq> CHR '';'') bytes"
    using x by (rule takeWhile_append1)
  have dw: "dropWhile (\<lambda>b. b \<noteq> CHR '';'') (bytes @ extra) = dropWhile (\<lambda>b. b \<noteq> CHR '';'') bytes @ extra"
    using x by (rule dropWhile_append1)
  show "semicolonFrame (bytes @ extra) = Row row (rest @ extra)"
  proof -
    have "semicolonFrame (bytes @ extra) =
        Row (takeWhile (\<lambda>b. b \<noteq> CHR '';'') (bytes @ extra))
            (tl (dropWhile (\<lambda>b. b \<noteq> CHR '';'') (bytes @ extra)))"
      using b c s by (auto simp: semicolonFrame_def)
    then show ?thesis using row rest ne tw dw by simp
  qed
next
  fix bytes extra
  assume "semicolonFrame bytes = EndOfRows"
  then show "semicolonFrame (bytes @ extra) = EndOfRows"
    by (cases bytes) (auto simp: semicolonFrame_def split: if_splits)
next
  fix bytes extra
  assume "semicolonFrame bytes = Malformed"
  then show "semicolonFrame (bytes @ extra) = Malformed"
    by (cases bytes) (auto simp: semicolonFrame_def split: if_splits)
qed

theorem NextRow_wire_order_witness:
  "fst (nextCalls 5 semicolonFrame (openStream semicolonFrame [''r1;r'', ''2;r3'', '';.''])) =
     [Some ''r1'', Some ''r2'', Some ''r3'', None, None]
   \<and> drainRows 4 semicolonFrame (openStream semicolonFrame [''r1;r'', ''2;r3'', '';.'']) [] =
     Some ([''r1'', ''r2'', ''r3''], None)"
proof -
  have p: "parseBody semicolonFrame (concat [''r1;r'', ''2;r3'', '';.'']) =
      ([''r1'', ''r2'', ''r3''], None)"
    by (simp add: parseBody.simps semicolonFrame_def)
  from NextRow_wire_order [OF semicolonFrame_stable p, of 2 4] show ?thesis
    by (simp add: numeral_eq_Suc)
qed

theorem NextRow_truncated_body_witness:
  "fst (nextCalls 4 semicolonFrame (openStream semicolonFrame [''r1;r'', ''2;r3''])) =
     [Some ''r1'', Some ''r2'', None, None]
   \<and> Err (snd (nextCalls 4 semicolonFrame (openStream semicolonFrame [''r1;r'', ''2;r3'']))) =
     Some TruncatedBody
   \<and> drainRows 3 semicolonFrame (openStream semicolonFrame [''r1;r'', ''2;r3'']) [] =
     Some ([''r1'', ''r2''], Some TruncatedBody)
   \<and> drainRows 3 semicolonFrame (openStream semicolonFrame [''r1;r'', ''2;!r3;.'']) [] =
     Some ([''r1'', ''r2''], Some MalformedBody)"
proof -
  have p: "parseBody semicolonFrame (concat [''r1;r'', ''2;r3'']) =
      ([''r1'', ''r2''], Some TruncatedBody)"
    by (simp add: parseBody.simps semicolonFrame_def)
  have q: "parseBody semicolonFrame (concat [''r1;r'', ''2;!r3;.'']) =
      ([''r1'', ''r2''], Some MalformedBody)"
    by (simp add: parseBody.simps semicolonFrame_def)
  from NextRow_truncated_body [OF semicolonFrame_stable p, of 1 3]
    NextRow_truncated_body [OF semicolonFrame_stable q, of 0 3]
  show ?thesis by (simp add: numeral_eq_Suc)
qed

section \<open>The circuit breaker: transitions\<close>

lemma report_failure_closed:
  "circuit st = Closed \<Longrightarrow>
   report testBreaker now Failure st =
     (if 2 \<le> failures st then st\<lparr>circuit := Open, failures := 0, nextProbe := now + 100\<rparr>
      else st\<lparr>failures := failures st + 1\<rparr>)"
  by (auto simp: report_def testBreaker_def)

lemma report_open: "circuit st = Open \<Longrightarrow> report config now result st = st"
  by (simp add: report_def)

lemma three_failures_open:
  assumes "circuit st = Closed"
  shows "circuit (report testBreaker t3 Failure (report testBreaker t2 Failure
           (report testBreaker t1 Failure st))) = Open"
proof -
  let ?s1 = "report testBreaker t1 Failure st"
  let ?s2 = "report testBreaker t2 Failure ?s1"
  show ?thesis
  proof (cases "circuit ?s1 = Open")
    case True
    then show ?thesis by (simp add: report_open)
  next
    case False
    then have s1: "circuit ?s1 = Closed" "failures ?s1 = failures st + 1"
      using assms by (auto simp: report_failure_closed split: if_splits)
    show ?thesis
    proof (cases "circuit ?s2 = Open")
      case True
      then show ?thesis by (simp add: report_open)
    next
      case False
      then have s2: "circuit ?s2 = Closed" "failures ?s2 = failures st + 2"
        using s1 by (auto simp: report_failure_closed split: if_splits)
      then show ?thesis by (simp add: report_failure_closed)
    qed
  qed
qed

text \<open>
  Claim C6. For the breaker with failure threshold 3 and a cooldown of 100 ms:
  three consecutive failures reported to a closed breaker leave it open, and when
  they are the first three since a success the third one opens it, the breaker
  then waiting until 100 ms after that report. An open breaker rejects every
  request before that time and is unchanged by it; the first request at or after
  that time is admitted and makes the breaker half-open, where further requests
  are rejected. From half-open, a reported success gives closed with the count
  cleared, and a reported failure gives open, waiting until 100 ms after that
  report.
\<close>

theorem breaker_transitions:
  "(circuit st = Closed \<longrightarrow>
      circuit (report testBreaker t3 Failure (report testBreaker t2 Failure
        (report testBreaker t1 Failure st))) = Open)
   \<and> (circuit st = Closed \<and> failures st = 0 \<longrightarrow>
      circuit (report testBreaker t2 Failure (report testBreaker t1 Failure st)) = Closed
      \<and> report testBreaker t3 Failure (report testBreaker t2 Failure
           (report testBreaker t1 Failure st))
         = st\<lparr>circuit := Open, failures := 0, nextProbe := t3 + 100\<rparr>)
   \<and> (circuit st = Open \<and> now < nextProbe st \<longrightarrow> allow now st = (False, st))
   \<and> (circuit st = Open \<and> nextProbe st \<le> now \<longrightarrow>
        allow now st = (True, st\<lparr>circuit := HalfOpen\<rparr>)
        \<and> fst (allow later (st\<lparr>circuit := HalfOpen\<rparr>)) = False)
   \<and> (circuit st = HalfOpen \<longrightarrow>
        allow now st = (False, st)
        \<and> report testBreaker now Success st = st\<lparr>circuit := Closed, failures := 0\<rparr>
        \<and> report testBreaker now Failure st = st\<lparr>circuit := Open, nextProbe := now + 100\<rparr>)"
proof -
  have p1: "circuit st = Closed \<longrightarrow>
      circuit (report testBreaker t3 Failure (report testBreaker t2 Failure
        (report testBreaker t1 Failure st))) = Open"
    using three_failures_open by blast
  have p2: "circuit st = Closed \<and> failures st = 0 \<longrightarrow>
      circuit (report testBreaker t2 Failure (report testBreaker t1 Failure st)) = Closed
      \<and> report testBreaker t3 Failure (report testBreaker t2 Failure
           (report testBreaker t1 Failure st))
         = st\<lparr>circuit := Open, failures := 0, nextProbe := t3 + 100\<rparr>"
    by (simp add: report_failure_closed)
  have p3: "circuit st = Open \<and> now < nextProbe st \<longrightarrow> allow now st = (False, st)"
    by (simp add: allow_def)
  have p4: "circuit st = Open \<and> nextProbe st \<le> now \<longrightarrow>
        allow now st = (True, st\<lparr>circuit := HalfOpen\<rparr>)
        \<and> fst (allow later (st\<lparr>circuit := HalfOpen\<rparr>)) = False"
    by (simp add: allow_def)
  have p5: "circuit st = HalfOpen \<longrightarrow>
        allow now st = (False, st)
        \<and> report testBreaker now Success st = st\<lparr>circuit := Closed, failures := 0\<rparr>
        \<and> report testBreaker now Failure st = st\<lparr>circuit := Open, nextProbe := now + 100\<rparr>"
    by (simp add: allow_def report_def testBreaker_def)
  show ?thesis using p1 p2 p3 p4 p5 by blast
qed

theorem breaker_transitions_witness:
  "report testBreaker 30 Failure (report testBreaker 20 Failure (report testBreaker 10 Failure
      \<lparr>circuit = Closed, failures = 0, nextProbe = 0\<rparr>))
     = \<lparr>circuit = Open, failures = 0, nextProbe = 130\<rparr>
   \<and> allow 129 \<lparr>circuit = Open, failures = 0, nextProbe = 130\<rparr>
     = (False, \<lparr>circuit = Open, failures = 0, nextProbe = 130\<rparr>)
   \<and> allow 130 \<lparr>circuit = Open, failures = 0, nextProbe = 130\<rparr>
     = (True, \<lparr>circuit = HalfOpen, failures = 0, nextProbe = 130\<rparr>)
   \<and> fst (allow 131 \<lparr>circuit = HalfOpen, failures = 0, nextProbe = 130\<rparr>) = False
   \<and> report testBreaker 140 Success \<lparr>circuit = HalfOpen, failures = 0, nextProbe = 130\<rparr>
     = \<lparr>circuit = Closed, failures = 0, nextProbe = 130\<rparr>
   \<and> report testBreaker 140 Failure \<lparr>circuit = HalfOpen, failures = 0, nextProbe = 130\<rparr>
     = \<lparr>circuit = Open, failures = 0, nextProbe = 240\<rparr>"
  using breaker_transitions [of "\<lparr>circuit = Closed, failures = 0, nextProbe = 0\<rparr>" 30 20 10]
    breaker_transitions [of "\<lparr>circuit = Open, failures = 0, nextProbe = 130\<rparr>" _ _ _ 129]
    breaker_transitions [of "\<lparr>circuit = Open, failures = 0, nextProbe = 130\<rparr>" _ _ _ 130 131]
    breaker_transitions [of "\<lparr>circuit = HalfOpen, failures = 0, nextProbe = 130\<rparr>" _ _ _ 140]
  by simp

end
